theory Spec2Isabelle
  imports Complex_Main "HOL-Library.Multiset"
begin

section \<open>The data of the editor\<close>

text \<open>
  The class \<^verbatim>\<open>CacEditor\<close> keeps its whole state on Konva nodes. The model keeps
  what the code reads back from them. A JavaScript \<^verbatim>\<open>number\<close> that is a coordinate is a
  \<^typ>\<open>real\<close>; ids and anchor indices are whole numbers (\<^typ>\<open>int\<close>). The entries of a line's
  \<^verbatim>\<open>points\<close> array are read with \<^verbatim>\<open>Array.prototype.at\<close>, which yields
  \<^verbatim>\<open>undefined\<close> past the ends of the array (and arithmetic on it \<^verbatim>\<open>NaN\<close>): such an
  entry is \<open>None\<close>, a number is \<open>Some r\<close>.
\<close>

type_synonym num = "real option"

type_synonym Vector2d = "real \<times> real"

datatype PIDIconType =
  valve | pump | compressor | heat_exchanger | separator | tank | pipe | fitting
  | instrument | control_valve

datatype anchor_type = anchor_in | anchor_out | anchor_in_out

record IPidAnchor =
  a_type :: anchor_type
  a_x :: real
  a_y :: real

record IPidShape =
  s_name :: string
  s_path :: string
  s_height :: real
  s_width :: real
  s_type :: PIDIconType
  anchors :: "IPidAnchor list"

text \<open>One entry of \<^verbatim>\<open>IDtoPidShape.c\<close>: a connection, stored on the shape that ends it.\<close>

record IDtoConn =
  conn_l :: "num list"
  sai :: int
  sid :: int
  eai :: int

record IDtoPidShape =
  dto_s :: IPidShape
  dto_x :: real
  dto_y :: real
  dto_id :: int
  dto_c :: "IDtoConn list"

datatype connector_type = conn_start | conn_end

text \<open>\<^verbatim>\<open>IConnector\<close>: \<open>line\<close> is a reference to a Konva line (its index in \<open>lines\<close> below).\<close>

record IConnector =
  line :: nat
  anchorIndex :: int
  ctype :: connector_type

datatype line_name = cacCurrentLine | cacConnectorTwoPidShape

text \<open>
  A Konva \<^verbatim>\<open>Line\<close> with the attributes the editor sets on it. \<open>lineInLayer\<close> is
  false once the line is destroyed (or before it is added to the layer): the object lives on
  in the connectors that reference it.
\<close>

record Line =
  points :: "num list"
  lname :: line_name
  cacStartAnchorIndex :: int
  cacStartPidShapeId :: int
  lineInLayer :: bool

section \<open>Routing\<close>

text \<open>\<^verbatim>\<open>Array.prototype.at\<close>: a negative index counts from the end.\<close>

definition array_at :: "num list \<Rightarrow> int \<Rightarrow> num" where
  "array_at xs i =
     (if 0 \<le> i
      then (if i < int (length xs) then xs ! nat i else None)
      else (if - int (length xs) \<le> i then xs ! nat (int (length xs) + i) else None))"

text \<open>\<^verbatim>\<open>(a + b) / 2\<close> on JavaScript numbers: \<^verbatim>\<open>NaN\<close> as soon as one operand is undefined.\<close>

definition middle :: "num \<Rightarrow> num \<Rightarrow> num" where
  "middle a b = (case (a, b) of (Some u, Some v) \<Rightarrow> Some ((u + v) / 2) | _ \<Rightarrow> None)"

text \<open>
  \<^verbatim>\<open>recalculateTheLine(line, pos)\<close>: the line keeps its first point and gets a route with
  two right angles to \<open>pos\<close>. It returns the new points and the updated line.
\<close>

definition recalculateTheLine :: "Line \<Rightarrow> Vector2d \<Rightarrow> num list \<times> Line" where
  "recalculateTheLine lin pos =
     (let startX = array_at (points lin) 0;
          startY = array_at (points lin) 1;
          middleX = middle startX (Some (fst pos));
          pts = [startX, startY, middleX, startY, middleX, Some (snd pos), Some (fst pos), Some (snd pos)]
      in (pts, lin\<lparr>points := pts\<rparr>))"

section \<open>The editor state\<close>

text \<open>
  What one call of \<^verbatim>\<open>addShape\<close> creates: the draggable group with its path (named
  \<^verbatim>\<open>pidshapename\<close>), text and box. \<open>groupPos\<close> is \<^verbatim>\<open>group.absolutePosition()\<close>,
  \<open>cacDto\<close> and \<open>cacConnectors\<close> are the attributes of the path (\<open>None\<close>: the attribute
  is not set), \<open>inLayer\<close> is false once the group is destroyed. A shape is referenced by its
  index in \<open>shapes\<close>, a line by its index in \<open>lines\<close>: both lists only grow, in the order the
  objects are created, which is also their order in the layer.
\<close>

record ShapeNode =
  pidShape :: IPidShape
  groupPos :: Vector2d
  cacDto :: IDtoPidShape
  cacConnectors :: "IConnector list option"
  inLayer :: bool

text \<open>
  A circle named \<^verbatim>\<open>cacAnchor\<close>, with the \<^verbatim>\<open>anchorIndex\<close> and \<^verbatim>\<open>pidKonvaPath\<close> its
  handlers close over.
\<close>

record AnchorShape =
  anchorPos :: Vector2d
  circleAnchorIndex :: int
  circlePath :: nat

text \<open>\<open>fired\<close> counts the calls of \<^verbatim>\<open>#fire\<close> (each runs every \<^verbatim>\<open>onChange\<close> callback).\<close>

record editor =
  shapes :: "ShapeNode list"
  lines :: "Line list"
  anchorShapes :: "AnchorShape list"
  fired :: nat

datatype error = TypeError

text \<open>
  The \<^verbatim>\<open>id\<close> argument of \<^verbatim>\<open>addShape\<close>: given, or omitted, and then with the value that
  \<^verbatim>\<open>Math.random()\<close> returns in the default \<^verbatim>\<open>Math.floor(Math.random() * 1000000)\<close>.
\<close>

datatype id_arg = id_given int | id_omitted real

definition initEditor :: editor where
  "initEditor = \<lparr>shapes = [], lines = [], anchorShapes = [], fired = 0\<rparr>"

definition fire :: "editor \<Rightarrow> editor" where
  "fire st = st\<lparr>fired := Suc (fired st)\<rparr>"

text \<open>\<^verbatim>\<open>layer.findOne('.cacCurrentLine')\<close> and \<^verbatim>\<open>layer.find('.pidshapename')\<close>.\<close>

definition findCurrentLine :: "editor \<Rightarrow> nat option" where
  "findCurrentLine st =
     find (\<lambda>i. lineInLayer (lines st ! i) \<and> lname (lines st ! i) = cacCurrentLine)
       [0..<length (lines st)]"

definition findPidShapes :: "editor \<Rightarrow> nat list" where
  "findPidShapes st = filter (\<lambda>i. inLayer (shapes st ! i)) [0..<length (shapes st)]"

definition updLine :: "nat \<Rightarrow> (Line \<Rightarrow> Line) \<Rightarrow> editor \<Rightarrow> editor" where
  "updLine i f st = st\<lparr>lines := (lines st)[i := f (lines st ! i)]\<rparr>"

definition updShape :: "nat \<Rightarrow> (ShapeNode \<Rightarrow> ShapeNode) \<Rightarrow> editor \<Rightarrow> editor" where
  "updShape i f st = st\<lparr>shapes := (shapes st)[i := f (shapes st ! i)]\<rparr>"

definition cleanAnchorShapes :: "editor \<Rightarrow> editor" where
  "cleanAnchorShapes st = st\<lparr>anchorShapes := []\<rparr>"

text \<open>
  \<^verbatim>\<open>#addConnectorToPath(shape, line, anchorIndex, type, init)\<close>. \<open>shape\<close> is \<open>None\<close> when the
  caller found no shape: reading an attribute of \<^verbatim>\<open>undefined\<close> throws. The anchor index is
  stored as it comes.
\<close>

definition addConnectorToPath ::
  "nat option \<Rightarrow> nat \<Rightarrow> int \<Rightarrow> connector_type \<Rightarrow> bool \<Rightarrow> editor \<Rightarrow> error option \<times> editor" where
  "addConnectorToPath shape lref anchorIdx type init st =
     (case shape of
        None \<Rightarrow> (Some TypeError, st)
      | Some sh \<Rightarrow>
          let node = shapes st ! sh;
              conns = (case cacConnectors node of None \<Rightarrow> [] | Some cs \<Rightarrow> cs);
              conn = \<lparr>line = lref, anchorIndex = anchorIdx, ctype = type\<rparr>;
              node1 = node\<lparr>cacConnectors := Some (conns @ [conn])\<rparr>
          in if type = conn_end then
               let dto = cacDto node1;
                   anchorIndexStart = cacStartAnchorIndex (lines st ! lref);
                   pidShapeStartId = cacStartPidShapeId (lines st ! lref);
                   pts = points (lines st ! lref);
                   dto1 = dto\<lparr>dto_c := dto_c dto @
                     [\<lparr>conn_l = pts, sai = anchorIndexStart, sid = pidShapeStartId, eai = anchorIdx\<rparr>]\<rparr>;
                   st1 = st\<lparr>shapes := (shapes st)[sh := node1\<lparr>cacDto := dto1\<rparr>]\<rparr>
               in (None, if init then st1 else fire st1)
             else (None, st\<lparr>shapes := (shapes st)[sh := node1]\<rparr>))"

text \<open>
  \<^verbatim>\<open>addShape(pidShape, x, y, id)\<close>; it returns the reference of the new group and path.
\<close>

definition addShape :: "IPidShape \<Rightarrow> real \<Rightarrow> real \<Rightarrow> id_arg \<Rightarrow> editor \<Rightarrow> nat \<times> editor" where
  "addShape shp x y idArg st =
     (let newId = (case idArg of id_given i \<Rightarrow> i | id_omitted rnd \<Rightarrow> \<lfloor>rnd * 1000000\<rfloor>);
          dto = \<lparr>dto_s = shp, dto_x = x, dto_y = y, dto_id = newId, dto_c = []\<rparr>;
          node = \<lparr>pidShape = shp, groupPos = (x, y), cacDto = dto, cacConnectors = None,
                  inLayer = True\<rparr>
      in (length (shapes st), st\<lparr>shapes := shapes st @ [node]\<rparr>))"

text \<open>
  \<^verbatim>\<open>pidKonvaPath.getClientRect({ relativeTo: this.layer })\<close> is Konva's: the bounding box of
  the drawn path, stroke included, in layer coordinates. Its top-left corner is the position
  of the group plus the corner of the path's own box, which Konva computes from the path data
  of the template; that corner is the parameter \<open>pathRect\<close> of the model.
\<close>

definition getClientRect :: "(IPidShape \<Rightarrow> Vector2d) \<Rightarrow> ShapeNode \<Rightarrow> Vector2d" where
  "getClientRect pathRect node =
     (fst (groupPos node) + fst (pathRect (pidShape node)),
      snd (groupPos node) + snd (pathRect (pidShape node)))"

text \<open>
  \<^verbatim>\<open>#createAnchorShapes(pidShape, pidKonvaPath)\<close>; both arguments come from the same call of
  \<^verbatim>\<open>addShape\<close>, the shape \<open>sh\<close>.
\<close>

definition createAnchorShapes :: "(IPidShape \<Rightarrow> Vector2d) \<Rightarrow> nat \<Rightarrow> editor \<Rightarrow> editor" where
  "createAnchorShapes pathRect sh st =
     (let st1 = cleanAnchorShapes st;
          node = shapes st1 ! sh;
          r = getClientRect pathRect node;
          circles = map (\<lambda>(anchor, i).
              \<lparr>anchorPos = (a_x anchor + fst r, a_y anchor + snd r),
               circleAnchorIndex = int i, circlePath = sh\<rparr>)
            (zip (anchors (pidShape node)) [0..<length (anchors (pidShape node))])
      in st1\<lparr>anchorShapes := anchorShapes st1 @ circles\<rparr>)"

text \<open>\<^verbatim>\<open>#endConnectingLine(pos)\<close>: returns the line it ended, if there was one.\<close>

definition endConnectingLine :: "Vector2d \<Rightarrow> editor \<Rightarrow> (error + nat option) \<times> editor" where
  "endConnectingLine pos st =
     (case findCurrentLine st of
        None \<Rightarrow> (Inr None, st)
      | Some lref \<Rightarrow>
          let st1 = updLine lref (\<lambda>lin. snd (recalculateTheLine lin pos)) st;
              st2 = updLine lref (\<lambda>lin. lin\<lparr>lname := cacConnectorTwoPidShape\<rparr>) st1;
              st3 = cleanAnchorShapes st2;
              anchorIndexStart = cacStartAnchorIndex (lines st3 ! lref);
              pidShapeStartId = cacStartPidShapeId (lines st3 ! lref);
              shapeStart = find (\<lambda>s. dto_id (cacDto (shapes st3 ! s)) = pidShapeStartId)
                             (findPidShapes st3)
          in (case addConnectorToPath shapeStart lref anchorIndexStart conn_start False st3 of
                (Some e, st4) \<Rightarrow> (Inl e, st4)
              | (None, st4) \<Rightarrow> (Inr (Some lref), st4)))"

text \<open>The handlers of an anchor circle.\<close>

definition anchorMouseUp :: "AnchorShape \<Rightarrow> editor \<Rightarrow> error option \<times> editor" where
  "anchorMouseUp a st =
     (case endConnectingLine (anchorPos a) st of
        (Inl e, st1) \<Rightarrow> (Some e, st1)
      | (Inr None, st1) \<Rightarrow> (None, st1)
      | (Inr (Some lref), st1) \<Rightarrow>
          addConnectorToPath (Some (circlePath a)) lref (circleAnchorIndex a) conn_end False st1)"

definition anchorMouseDown :: "AnchorShape \<Rightarrow> editor \<Rightarrow> editor" where
  "anchorMouseDown a st =
     (case findCurrentLine st of
        Some lref \<Rightarrow> st
      | None \<Rightarrow>
          let pos = anchorPos a;
              dto = cacDto (shapes st ! circlePath a);
              newLine = \<lparr>points = [Some (fst pos), Some (snd pos)], lname = cacCurrentLine,
                         cacStartAnchorIndex = circleAnchorIndex a,
                         cacStartPidShapeId = dto_id dto, lineInLayer = True\<rparr>
          in st\<lparr>lines := lines st @ [newLine]\<rparr>)"

text \<open>The handlers of the group of a shape.\<close>

definition groupClick :: "(IPidShape \<Rightarrow> Vector2d) \<Rightarrow> nat \<Rightarrow> editor \<Rightarrow> editor" where
  "groupClick pathRect sh st = createAnchorShapes pathRect sh st"

definition groupMouseOver :: "(IPidShape \<Rightarrow> Vector2d) \<Rightarrow> nat \<Rightarrow> editor \<Rightarrow> editor" where
  "groupMouseOver pathRect sh st =
     (case findCurrentLine st of
        Some lref \<Rightarrow> createAnchorShapes pathRect sh st
      | None \<Rightarrow> st)"

definition groupMouseDown :: "nat \<Rightarrow> editor \<Rightarrow> editor" where
  "groupMouseDown sh st = cleanAnchorShapes st"

text \<open>\<^verbatim>\<open>pidShape.anchors[c.anchorIndex]\<close>: \<^verbatim>\<open>undefined\<close> outside the array.\<close>

definition array_index :: "'a list \<Rightarrow> int \<Rightarrow> 'a option" where
  "array_index xs i = (if 0 \<le> i \<and> i < int (length xs) then Some (xs ! nat i) else None)"

text \<open>
  The body of the \<^verbatim>\<open>dragmove\<close> loop for one connector, once \<open>g\<close> is the new absolute
  position of its anchor: a line that ends at the shape is recalculated to \<open>g\<close>, a line that
  starts at it keeps its last point and takes its middle from its old first and last \<open>x\<close>.
\<close>

definition dragmoveLine :: "connector_type \<Rightarrow> Vector2d \<Rightarrow> Line \<Rightarrow> Line" where
  "dragmoveLine type g lin =
     (if type = conn_end then snd (recalculateTheLine lin g)
      else
        let endX = array_at (points lin) (- 2);
            endY = array_at (points lin) (- 1);
            startX = array_at (points lin) 0;
            middleX = middle startX endX
        in lin\<lparr>points := [Some (fst g), Some (snd g), middleX, Some (snd g), middleX, endY,
                            endX, endY]\<rparr>)"

text \<open>
  The \<^verbatim>\<open>forEach\<close> of the \<^verbatim>\<open>dragmove\<close> handler. An anchor index outside the template
  gives \<^verbatim>\<open>undefined\<close>, and reading its \<^verbatim>\<open>x\<close> throws: the loop stops there, the lines
  before it already moved.
\<close>

fun dragmoveConnectors ::
  "IPidShape \<Rightarrow> Vector2d \<Rightarrow> IConnector list \<Rightarrow> Line list \<Rightarrow> error option \<times> Line list" where
  "dragmoveConnectors shp gp [] ls = (None, ls)"
| "dragmoveConnectors shp gp (c # cs) ls =
     (case array_index (anchors shp) (anchorIndex c) of
        None \<Rightarrow> (Some TypeError, ls)
      | Some anchor \<Rightarrow>
          dragmoveConnectors shp gp cs
            (ls[line c := dragmoveLine (ctype c) (fst gp + a_x anchor, snd gp + a_y anchor)
                            (ls ! line c)]))"

definition groupDragMove :: "nat \<Rightarrow> editor \<Rightarrow> error option \<times> editor" where
  "groupDragMove sh st =
     (case cacConnectors (shapes st ! sh) of
        None \<Rightarrow> (None, st)
      | Some connectors \<Rightarrow>
          (case dragmoveConnectors (pidShape (shapes st ! sh)) (groupPos (shapes st ! sh))
                  connectors (lines st) of
             (e, ls) \<Rightarrow> (e, st\<lparr>lines := ls\<rparr>)))"

definition groupDragEnd :: "nat \<Rightarrow> editor \<Rightarrow> editor" where
  "groupDragEnd sh st =
     fire (updShape sh (\<lambda>node. node\<lparr>cacDto := (cacDto node)
             \<lparr>dto_x := fst (groupPos node), dto_y := snd (groupPos node)\<rparr>\<rparr>) st)"

subsection \<open>Export\<close>

text \<open>
  \<^verbatim>\<open>#export\<close> first copies the points of the line of the \<open>index\<close>-th connector of type
  \<^verbatim>\<open>end\<close> into \<^verbatim>\<open>dto.c[index].l\<close>, for every shape of the layer; an entry that does not
  exist is \<^verbatim>\<open>undefined\<close> and the assignment throws.
\<close>

fun refreshLines ::
  "Line list \<Rightarrow> IConnector list \<Rightarrow> nat \<Rightarrow> IDtoConn list \<Rightarrow> error option \<times> IDtoConn list" where
  "refreshLines ls [] index cs = (None, cs)"
| "refreshLines ls (c # rest) index cs =
     (if index < length cs
      then refreshLines ls rest (Suc index)
             (cs[index := (cs ! index)\<lparr>conn_l := points (ls ! line c)\<rparr>])
      else (Some TypeError, cs))"

definition exportShape :: "Line list \<Rightarrow> ShapeNode \<Rightarrow> error option \<times> ShapeNode" where
  "exportShape ls node =
     (case cacConnectors node of
        None \<Rightarrow> (None, node)
      | Some conns \<Rightarrow>
          (case refreshLines ls (filter (\<lambda>c. ctype c = conn_end) conns) 0 (dto_c (cacDto node)) of
             (e, cs) \<Rightarrow> (e, node\<lparr>cacDto := (cacDto node)\<lparr>dto_c := cs\<rparr>\<rparr>)))"

fun exportShapes :: "nat list \<Rightarrow> editor \<Rightarrow> error option \<times> editor" where
  "exportShapes [] st = (None, st)"
| "exportShapes (i # rest) st =
     (case exportShape (lines st) (shapes st ! i) of
        (Some e, node) \<Rightarrow> (Some e, st\<lparr>shapes := (shapes st)[i := node]\<rparr>)
      | (None, node) \<Rightarrow> exportShapes rest (st\<lparr>shapes := (shapes st)[i := node]\<rparr>))"

definition exportJson :: "editor \<Rightarrow> (error + IDtoPidShape list) \<times> editor" where
  "exportJson st =
     (let pidShapes = findPidShapes st
      in case exportShapes pidShapes st of
           (Some e, st1) \<Rightarrow> (Inl e, st1)
         | (None, st1) \<Rightarrow> (Inr (map (\<lambda>i. cacDto (shapes st1 ! i)) pidShapes), st1))"

subsection \<open>Import\<close>

text \<open>
  The body of the inner loop of \<^verbatim>\<open>importJson\<close> for the connection \<open>conn\<close> of the document
  entry \<open>dto\<close>; \<open>groupAndPidShapes\<close> are the shapes that the import added. The new line joins
  the layer only at the end.
\<close>

definition importConn ::
  "nat list \<Rightarrow> IDtoPidShape \<Rightarrow> IDtoConn \<Rightarrow> editor \<Rightarrow> error option \<times> editor" where
  "importConn groupAndPidShapes dto conn st =
     (let newLine = \<lparr>points = conn_l conn, lname = cacConnectorTwoPidShape,
                     cacStartAnchorIndex = sai conn, cacStartPidShapeId = sid conn,
                     lineInLayer = False\<rparr>;
          lref = length (lines st);
          st1 = st\<lparr>lines := lines st @ [newLine]\<rparr>
      in case find (\<lambda>g. dto_id (cacDto (shapes st1 ! g)) = sid conn) groupAndPidShapes of
           None \<Rightarrow> (None, st1)
         | Some groupAndPidShapeStart \<Rightarrow>
             (case addConnectorToPath (Some groupAndPidShapeStart) lref (sai conn) conn_start
                     False st1 of
                (Some e, st2) \<Rightarrow> (Some e, st2)
              | (None, st2) \<Rightarrow>
                  (case addConnectorToPath
                          (find (\<lambda>g. dto_id (cacDto (shapes st2 ! g)) = dto_id dto)
                             groupAndPidShapes)
                          lref (eai conn) conn_end True st2 of
                     (Some e, st3) \<Rightarrow> (Some e, st3)
                   | (None, st3) \<Rightarrow>
                       (None, updLine lref (\<lambda>lin. lin\<lparr>lineInLayer := True\<rparr>) st3))))"

fun importConns ::
  "nat list \<Rightarrow> IDtoPidShape \<Rightarrow> IDtoConn list \<Rightarrow> editor \<Rightarrow> error option \<times> editor" where
  "importConns gs dto [] st = (None, st)"
| "importConns gs dto (conn # rest) st =
     (case importConn gs dto conn st of
        (Some e, st1) \<Rightarrow> (Some e, st1)
      | (None, st1) \<Rightarrow> importConns gs dto rest st1)"

fun importDtos :: "nat list \<Rightarrow> IDtoPidShape list \<Rightarrow> editor \<Rightarrow> error option \<times> editor" where
  "importDtos gs [] st = (None, st)"
| "importDtos gs (dto # rest) st =
     (case importConns gs dto (dto_c dto) st of
        (Some e, st1) \<Rightarrow> (Some e, st1)
      | (None, st1) \<Rightarrow> importDtos gs rest st1)"

text \<open>The \<^verbatim>\<open>data.map\<close> of \<^verbatim>\<open>importJson\<close>: one \<^verbatim>\<open>addShape\<close> per entry, with its id.\<close>

fun addShapes :: "IDtoPidShape list \<Rightarrow> editor \<Rightarrow> nat list \<times> editor" where
  "addShapes [] st = ([], st)"
| "addShapes (i # rest) st =
     (case addShape (dto_s i) (dto_x i) (dto_y i) (id_given (dto_id i)) st of
        (g, st1) \<Rightarrow> (case addShapes rest st1 of (gs, st2) \<Rightarrow> (g # gs, st2)))"

text \<open>
  \<^verbatim>\<open>importJson(data)\<close>: \<open>Inr None\<close> is the return without a value on \<^verbatim>\<open>null\<close>, otherwise
  it returns the references of the shapes it added.
\<close>

definition importJson ::
  "IDtoPidShape list option \<Rightarrow> editor \<Rightarrow> (error + nat list option) \<times> editor" where
  "importJson data st =
     (case data of
        None \<Rightarrow> (Inr None, st)
      | Some d \<Rightarrow>
          (case addShapes d st of
             (groupAndPidShapes, st1) \<Rightarrow>
               (case importDtos groupAndPidShapes d st1 of
                  (Some e, st2) \<Rightarrow> (Inl e, st2)
                | (None, st2) \<Rightarrow> (Inr (Some groupAndPidShapes), st2))))"

definition clear :: "editor \<Rightarrow> editor" where
  "clear st = st\<lparr>shapes := map (\<lambda>node. node\<lparr>inLayer := False\<rparr>) (shapes st),
                  lines := map (\<lambda>lin. lin\<lparr>lineInLayer := False\<rparr>) (lines st),
                  anchorShapes := []\<rparr>"

subsection \<open>The stage and the menu\<close>

definition emptyEnd :: IPidShape where
  "emptyEnd =
     \<lparr>s_name = [],
      s_path = ''m 0 0 a 5 5 0 0 1 14 0 a 5 5 0 0 1 -14 0'',
      s_height = 10, s_width = 10, s_type = valve,
      anchors = [\<lparr>a_type = anchor_in_out, a_x = 0, a_y = 7\<rparr>,
                 \<lparr>a_type = anchor_in_out, a_x = 14, a_y = 7\<rparr>]\<rparr>"

text \<open>\<^verbatim>\<open>#createEmtpyShape(pos)\<close>: \<open>rnd\<close> is what \<^verbatim>\<open>Math.random()\<close> returns for the id.\<close>

definition createEmtpyShape :: "Vector2d \<Rightarrow> real \<Rightarrow> editor \<Rightarrow> nat \<times> editor" where
  "createEmtpyShape pos rnd st = addShape emptyEnd (fst pos) (snd pos) (id_omitted rnd) st"

text \<open>
  The \<^verbatim>\<open>click tap\<close> handler of the stage when the target is the stage itself; \<open>pos\<close> is
  \<^verbatim>\<open>stage.getPointerPosition()\<close>.
\<close>

definition stageClick :: "Vector2d option \<Rightarrow> real \<Rightarrow> editor \<Rightarrow> error option \<times> editor" where
  "stageClick pos rnd st =
     (let st1 = cleanAnchorShapes st
      in case pos of
           None \<Rightarrow>
             (case findCurrentLine st1 of
                None \<Rightarrow> (None, st1)
              | Some lref \<Rightarrow> (None, updLine lref (\<lambda>lin. lin\<lparr>lineInLayer := False\<rparr>) st1))
         | Some p \<Rightarrow>
             (case findCurrentLine st1 of
                None \<Rightarrow> (None, st1)
              | Some lref \<Rightarrow>
                  (case endConnectingLine p st1 of
                     (Inl e, st2) \<Rightarrow> (Some e, st2)
                   | (Inr ended, st2) \<Rightarrow>
                       (case createEmtpyShape p rnd st2 of
                          (stub, st3) \<Rightarrow>
                            (case ended of
                               None \<Rightarrow> (None, st3)
                             | Some l \<Rightarrow> addConnectorToPath (Some stub) l 0 conn_end False st3)))))"

definition stageMouseMove :: "Vector2d option \<Rightarrow> editor \<Rightarrow> editor" where
  "stageMouseMove pos st =
     (case pos of
        None \<Rightarrow> st
      | Some p \<Rightarrow>
          (case findCurrentLine st of
             None \<Rightarrow> st
           | Some lref \<Rightarrow> updLine lref (\<lambda>lin. snd (recalculateTheLine lin p)) st))"

text \<open>
  \<^verbatim>\<open>#deleteShape(s)\<close> for a target \<open>s\<close> that is a child of the group of the shape \<open>sh\<close>
  (its path, text or box). The parent of \<open>s\<close> is \<^verbatim>\<open>null\<close> once the group is destroyed.
\<close>

definition deleteShape :: "nat \<Rightarrow> editor \<Rightarrow> editor" where
  "deleteShape sh st =
     (let st1 = cleanAnchorShapes st
      in if \<not> inLayer (shapes st1 ! sh) then st1
         else
           let conns = (case cacConnectors (shapes st1 ! sh) of None \<Rightarrow> [] | Some cs \<Rightarrow> cs);
               st2 = foldl (\<lambda>s c. updLine (line c) (\<lambda>lin. lin\<lparr>lineInLayer := False\<rparr>) s) st1 conns;
               st3 = updShape sh (\<lambda>node. node\<lparr>inLayer := False\<rparr>) st2
           in fire st3)"

subsection \<open>Events\<close>

text \<open>
  What the user and the embedding page can do to an editor. An event on a group names a shape
  of the layer, an event on an anchor a circle that is shown (by its position in
  \<open>anchorShapes\<close>); otherwise it cannot happen and is skipped. \<open>DragMove\<close> carries the
  position to which Konva has moved the group when it calls the handler. A handler that throws
  leaves the state as it is at the throw. The context menu offers \<^verbatim>\<open>Delete\<close>; the
  transformer, the cursor and the radius of a circle under the pointer are left out.
\<close>

datatype event =
    AddShape IPidShape real real id_arg
  | Click nat
  | MouseOver nat
  | MouseDown nat
  | DragMove nat Vector2d
  | DragEnd nat
  | AnchorMouseDown nat
  | AnchorMouseUp nat
  | StageClick "Vector2d option" real
  | StageMouseMove "Vector2d option"
  | MenuDelete nat
  | ExportJson
  | ImportJson "IDtoPidShape list option"
  | Clear

definition onShape :: "nat \<Rightarrow> editor \<Rightarrow> bool" where
  "onShape sh st = (sh < length (shapes st) \<and> inLayer (shapes st ! sh))"

fun step :: "(IPidShape \<Rightarrow> Vector2d) \<Rightarrow> editor \<Rightarrow> event \<Rightarrow> editor" where
  "step pathRect st (AddShape shp x y idArg) = snd (addShape shp x y idArg st)"
| "step pathRect st (Click sh) = (if onShape sh st then groupClick pathRect sh st else st)"
| "step pathRect st (MouseOver sh) =
     (if onShape sh st then groupMouseOver pathRect sh st else st)"
| "step pathRect st (MouseDown sh) = (if onShape sh st then groupMouseDown sh st else st)"
| "step pathRect st (DragMove sh p) =
     (if onShape sh st
      then snd (groupDragMove sh (updShape sh (\<lambda>node. node\<lparr>groupPos := p\<rparr>) st))
      else st)"
| "step pathRect st (DragEnd sh) = (if onShape sh st then groupDragEnd sh st else st)"
| "step pathRect st (AnchorMouseDown k) =
     (if k < length (anchorShapes st) then anchorMouseDown (anchorShapes st ! k) st else st)"
| "step pathRect st (AnchorMouseUp k) =
     (if k < length (anchorShapes st) then snd (anchorMouseUp (anchorShapes st ! k) st) else st)"
| "step pathRect st (StageClick pos rnd) = snd (stageClick pos rnd st)"
| "step pathRect st (StageMouseMove pos) = stageMouseMove pos st"
| "step pathRect st (MenuDelete sh) =
     (if onShape sh st then deleteShape sh (cleanAnchorShapes st) else st)"
| "step pathRect st ExportJson = snd (exportJson st)"
| "step pathRect st (ImportJson data) = snd (importJson data st)"
| "step pathRect st Clear = clear st"

definition run :: "(IPidShape \<Rightarrow> Vector2d) \<Rightarrow> event list \<Rightarrow> editor" where
  "run pathRect evs = foldl (step pathRect) initEditor evs"

subsection \<open>The line in progress\<close>

text \<open>
  The lines that \<^verbatim>\<open>layer.find('.cacCurrentLine')\<close> would return: the lines in progress.
\<close>

definition isCurrent :: "Line \<Rightarrow> bool" where
  "isCurrent lin = (lineInLayer lin \<and> lname lin = cacCurrentLine)"

definition currentLines :: "editor \<Rightarrow> Line list" where
  "currentLines st = filter isCurrent (lines st)"

subsection \<open>What import keeps true\<close>

text \<open>
  The connectors of a shape (none while the attribute is not set); and the state of a shape on
  which \<^verbatim>\<open>#export\<close> changes nothing: its stored connections are, in order, the lines of
  its connectors of type \<^verbatim>\<open>end\<close>, and every connector references an existing line.
\<close>

definition connectorsOf :: "ShapeNode \<Rightarrow> IConnector list" where
  "connectorsOf node = (case cacConnectors node of None \<Rightarrow> [] | Some cs \<Rightarrow> cs)"

definition consistent :: "Line list \<Rightarrow> ShapeNode \<Rightarrow> bool" where
  "consistent ls node =
     (map (\<lambda>c. points (ls ! line c)) (filter (\<lambda>c. ctype c = conn_end) (connectorsOf node)) =
        map conn_l (dto_c (cacDto node))
      \<and> list_all (\<lambda>c. line c < length ls) (connectorsOf node))"

text \<open>
  The states that \<^verbatim>\<open>importJson\<close> goes through while it reads the document \<open>D\<close> into a new
  editor: one shape per entry, with the entry's template, position and id, all in the layer.
\<close>

definition importInv :: "IDtoPidShape list \<Rightarrow> editor \<Rightarrow> bool" where
  "importInv D st =
     (map (\<lambda>node. (cacDto node)\<lparr>dto_c := []\<rparr>) (shapes st) = map (\<lambda>d. d\<lparr>dto_c := []\<rparr>) D
      \<and> list_all inLayer (shapes st)
      \<and> list_all (consistent (lines st)) (shapes st))"

text \<open>The first entry of the document \<open>D\<close> with the id \<open>i\<close>, as the import looks it up.\<close>

definition owner :: "IDtoPidShape list \<Rightarrow> int \<Rightarrow> nat option" where
  "owner D i = find (\<lambda>g. dto_id (D ! g) = i) [0..<length D]"

section \<open>Properties\<close>

lemma array_at_0: "array_at (a # xs) 0 = a"
  by (simp add: array_at_def)

lemma array_at_1: "array_at (a # b # xs) 1 = b"
  by (simp add: array_at_def)

text \<open>
  C1. For every start point \<open>(x0, y0)\<close> of a line and every end point \<open>(x1, y1)\<close>,
  \<^verbatim>\<open>recalculateTheLine\<close> returns (and stores in the line) exactly the eight numbers
  \<open>[x0, y0, mx, y0, mx, y1, x1, y1]\<close> with \<open>mx = (x0 + x1) / 2\<close>; from \<open>(0, 0)\<close> to
  \<open>(10, 20)\<close> the route is \<open>[0, 0, 5, 0, 5, 20, 10, 20]\<close>.
\<close>

theorem recalculateTheLine_route:
  "recalculateTheLine (lin\<lparr>points := Some x0 # Some y0 # rest\<rparr>) (x1, y1) =
     (map Some [x0, y0, (x0 + x1) / 2, y0, (x0 + x1) / 2, y1, x1, y1],
      lin\<lparr>points := map Some [x0, y0, (x0 + x1) / 2, y0, (x0 + x1) / 2, y1, x1, y1]\<rparr>)
   \<and> fst (recalculateTheLine (lin\<lparr>points := [Some 0, Some 0]\<rparr>) (10, 20)) =
       map Some [0, 0, 5, 0, 5, 20, 10, 20]"
  by (simp add: recalculateTheLine_def middle_def array_at_0 array_at_1 Let_def)

subsection \<open>Evaluating the handlers\<close>

lemmas handler_defs =
  run_def initEditor_def addShape_def emptyEnd_def onShape_def groupClick_def
  createAnchorShapes_def cleanAnchorShapes_def getClientRect_def anchorMouseDown_def
  findCurrentLine_def groupMouseOver_def groupMouseDown_def anchorMouseUp_def
  endConnectingLine_def updLine_def updShape_def recalculateTheLine_def array_at_def
  middle_def findPidShapes_def addConnectorToPath_def fire_def groupDragMove_def
  groupDragEnd_def dragmoveLine_def array_index_def stageClick_def stageMouseMove_def
  createEmtpyShape_def deleteShape_def exportJson_def exportShape_def importJson_def
  importConn_def clear_def Let_def

subsection \<open>Connecting\<close>

text \<open>
  C3, as the code has it. \<^verbatim>\<open>#addConnectorToPath\<close> has no check of the anchor index: for
  every index \<open>i\<close>, inside the template's anchors or not, the call for the end of a line
  returns normally and appends the connection with \<open>eai = i\<close> (and the start index and start
  id stored on the line) to the list of the shape. It returns no value.
\<close>

theorem addConnectorToPath_no_check:
  "sh < length (shapes st) \<Longrightarrow>
   fst (addConnectorToPath (Some sh) lref i conn_end init st) = None \<and>
   dto_c (cacDto (shapes (snd (addConnectorToPath (Some sh) lref i conn_end init st)) ! sh)) =
     dto_c (cacDto (shapes st ! sh)) @
       [\<lparr>conn_l = points (lines st ! lref), sai = cacStartAnchorIndex (lines st ! lref),
         sid = cacStartPidShapeId (lines st ! lref), eai = i\<rparr>]"
  by (simp add: addConnectorToPath_def Let_def fire_def)

theorem addConnectorToPath_no_check_witness:
  "0 < length (shapes (snd (addShape emptyEnd 0 0 (id_given 1) initEditor))) \<and>
   fst (addConnectorToPath (Some 0) 0 1 conn_end True
          (snd (addShape emptyEnd 0 0 (id_given 1) initEditor))) = None"
  using addConnectorToPath_no_check
    [of 0 "snd (addShape emptyEnd 0 0 (id_given 1) initEditor)" 0 1 True]
  by (simp add: addShape_def initEditor_def)

text \<open>
  C3 as stated fails: a shape with two anchors is added and a line is started at its first
  anchor; ending the line at anchor index 5 of that shape raises nothing and appends the
  connection with \<open>eai = 5\<close>.
\<close>

theorem addConnectorToPath_out_of_range:
  "fst (addConnectorToPath (Some 0) 0 5 conn_end False
          (run (\<lambda>s. (0, 0)) [AddShape emptyEnd 0 0 (id_given 1), Click 0, AnchorMouseDown 0]))
     = None
   \<and> dto_c (cacDto (shapes (snd (addConnectorToPath (Some 0) 0 5 conn_end False
          (run (\<lambda>s. (0, 0)) [AddShape emptyEnd 0 0 (id_given 1), Click 0, AnchorMouseDown 0])))
        ! 0)) =
       [\<lparr>conn_l = [Some 0, Some 7], sai = 0, sid = 1, eai = 5\<rparr>]
   \<and> length (anchors emptyEnd) = 2"
  by (simp add: handler_defs)

subsection \<open>Moving a connected shape\<close>

text \<open>
  The loop body of the \<^verbatim>\<open>dragmove\<close> handler on a line of eight numbers. A line that starts
  at the dragged shape keeps its last point \<open>(p6, p7)\<close>, starts at \<open>(gx, gy)\<close> and bends at the
  middle of its first \<open>x\<close> before the step and its last \<open>x\<close>; a line that ends at the dragged
  shape is recalculated from its first point to \<open>(gx, gy)\<close>.
\<close>

lemma dragmoveLine_routes:
  "points (dragmoveLine conn_start (gx, gy)
      (lin\<lparr>points := map Some [p0, p1, p2, p3, p4, p5, p6, p7]\<rparr>)) =
     map Some [gx, gy, (p0 + p6) / 2, gy, (p0 + p6) / 2, p7, p6, p7]
   \<and> dragmoveLine conn_end (gx, gy) lin = snd (recalculateTheLine lin (gx, gy))
   \<and> points (dragmoveLine conn_end (gx, gy)
        (lin\<lparr>points := map Some [p0, p1, p2, p3, p4, p5, p6, p7]\<rparr>)) =
     map Some [p0, p1, (p0 + gx) / 2, p1, (p0 + gx) / 2, gy, gx, gy]"
  by (simp add: dragmoveLine_def recalculateTheLine_def array_at_def middle_def Let_def)

text \<open>
  C5 fails on the code. Two shapes are connected from the second anchor of the first, at
  \<open>(14, 7)\<close>, to the first anchor of the second, at \<open>(100, 7)\<close>: the line bends at \<open>x = 57\<close>.
  The \<^verbatim>\<open>dragmove\<close> handler of the first shape, dragged to \<open>x = 2\<close>, moves the start of
  the line to \<open>(16, 7)\<close> and keeps the end and the bend; dragged on to \<open>x = 4\<close>, it moves the
  bend to \<open>x = 58\<close>, the middle of the start before that step and the end. The handler reads
  the first \<open>x\<close> of the line before it writes the new start, so the vertical segment does not
  stay where it was.
\<close>

theorem dragmove_start_moves_middle:
  "map points (lines (run (\<lambda>s. (0, 0))
      [AddShape emptyEnd 0 0 (id_given 1), AddShape emptyEnd 100 0 (id_given 2), Click 0,
       AnchorMouseDown 1, MouseOver 1, AnchorMouseUp 0, MouseDown 0])) =
     [map Some [14, 7, 57, 7, 57, 7, 100, 7]]
   \<and> map points (lines (run (\<lambda>s. (0, 0))
      [AddShape emptyEnd 0 0 (id_given 1), AddShape emptyEnd 100 0 (id_given 2), Click 0,
       AnchorMouseDown 1, MouseOver 1, AnchorMouseUp 0, MouseDown 0, DragMove 0 (2, 0)])) =
     [map Some [16, 7, 57, 7, 57, 7, 100, 7]]
   \<and> map points (lines (run (\<lambda>s. (0, 0))
      [AddShape emptyEnd 0 0 (id_given 1), AddShape emptyEnd 100 0 (id_given 2), Click 0,
       AnchorMouseDown 1, MouseOver 1, AnchorMouseUp 0, MouseDown 0, DragMove 0 (2, 0),
       DragMove 0 (4, 0)])) =
     [map Some [18, 7, 58, 7, 58, 7, 100, 7]]"
  by (simp add: handler_defs)

subsection \<open>Anchors\<close>

lemma createAnchorShapes_anchorPos:
  "map anchorPos (anchorShapes (createAnchorShapes pathRect sh st)) =
     map (\<lambda>a. (a_x a + fst (getClientRect pathRect (shapes st ! sh)),
               a_y a + snd (getClientRect pathRect (shapes st ! sh))))
       (anchors (pidShape (shapes st ! sh)))"
  unfolding createAnchorShapes_def cleanAnchorShapes_def Let_def
  by (rule nth_equalityI) (simp_all add: split_def)

text \<open>
  C7, as the code has it. After \<^verbatim>\<open>addShape(t, x, y)\<close> a click on the shape shows one circle
  per anchor of the template, in order, the circle of an anchor at the anchor's offset from
  the top-left corner of the client rectangle of the path, \<open>(x, y)\<close> plus the corner
  \<open>pathRect t\<close> of the path's own box; after the group is dragged by \<open>(dx, dy)\<close>, a click
  shows every circle moved by \<open>(dx, dy)\<close>.
\<close>

theorem createAnchorShapes_positions:
  "map anchorPos (anchorShapes
      (step pathRect (snd (addShape shp x y idArg st)) (Click (length (shapes st))))) =
     map (\<lambda>a. (a_x a + (x + fst (pathRect shp)), a_y a + (y + snd (pathRect shp))))
       (anchors shp)
   \<and> map anchorPos (anchorShapes
      (step pathRect (step pathRect (step pathRect (snd (addShape shp x y idArg st))
          (MouseDown (length (shapes st)))) (DragMove (length (shapes st)) (x + dx, y + dy)))
          (Click (length (shapes st))))) =
     map (\<lambda>a. (a_x a + (x + fst (pathRect shp)) + dx, a_y a + (y + snd (pathRect shp)) + dy))
       (anchors shp)"
  by (simp add: addShape_def onShape_def groupClick_def createAnchorShapes_anchorPos
      cleanAnchorShapes_def getClientRect_def Let_def groupMouseDown_def groupDragMove_def
      updShape_def algebra_simps)

text \<open>
  C7 as stated fails wherever the box of the path does not start at the origin of the group.
  The path of the stub shape is a circle of radius 7 around \<open>(7, 0)\<close>, drawn with a stroke of
  width 1.4, so its box starts above and left of the origin, at about \<open>(-0.7, -7.7)\<close>. With
  that corner and the shape added at \<open>(100, 50)\<close>, the anchors are shown at \<open>(99.3, 49.3)\<close>
  and \<open>(113.3, 49.3)\<close>, the ends of the circle's horizontal diameter, not at \<open>(100, 57)\<close>
  and \<open>(114, 57)\<close>.
\<close>

theorem createAnchorShapes_not_at_position:
  "map anchorPos (anchorShapes
      (step (\<lambda>s. (- 7 / 10, - 77 / 10))
         (snd (addShape emptyEnd 100 50 (id_given 1) initEditor)) (Click 0))) =
     [(993 / 10, 493 / 10), (1133 / 10, 493 / 10)]
   \<and> map (\<lambda>a. (100 + a_x a, 50 + a_y a)) (anchors emptyEnd) = [(100, 57), (114, 57)]"
  by (simp add: handler_defs)

subsection \<open>Random ids\<close>

text \<open>
  C10. When \<^verbatim>\<open>addShape\<close> is called without an id and \<^verbatim>\<open>Math.random()\<close> returns \<open>rnd\<close>
  (at least 0, less than 1), the id of the new shape is \<open>\<lfloor>rnd * 1000000\<rfloor>\<close>, between 0 and
  999999, whatever shapes the editor holds: a second shape added with the same random value
  is another shape with the same id.
\<close>

theorem addShape_random_id:
  "0 \<le> rnd \<Longrightarrow> rnd < 1 \<Longrightarrow>
   (case addShape shp x y (id_omitted rnd) st of
      (g, st1) \<Rightarrow>
        dto_id (cacDto (shapes st1 ! g)) = \<lfloor>rnd * 1000000\<rfloor> \<and>
        0 \<le> dto_id (cacDto (shapes st1 ! g)) \<and> dto_id (cacDto (shapes st1 ! g)) \<le> 999999 \<and>
        (case addShape shp' x' y' (id_omitted rnd) st1 of
           (g', st2) \<Rightarrow>
             g' \<noteq> g \<and> dto_id (cacDto (shapes st2 ! g')) = dto_id (cacDto (shapes st2 ! g))))"
  by (simp add: addShape_def Let_def nth_append)

theorem addShape_random_id_witness:
  "(0::real) \<le> 1 / 2 \<and> (1::real) / 2 < 1 \<and>
   dto_id (cacDto (shapes (snd (addShape emptyEnd 0 0 (id_omitted (1 / 2)) initEditor)) ! 0)) =
     500000"
  using addShape_random_id [where rnd = "1 / 2" and shp = emptyEnd and x = 0 and y = 0
      and st = initEditor and shp' = emptyEnd and x' = 1 and y' = 1]
  by (simp add: addShape_def initEditor_def Let_def)

subsection \<open>At most one line in progress\<close>

lemma findCurrentLine_None: "findCurrentLine st = None \<longleftrightarrow> currentLines st = []"
  by (auto simp: findCurrentLine_def currentLines_def find_None_iff filter_empty_conv
      isCurrent_def all_set_conv_all_nth)

lemma findCurrentLine_Some:
  "findCurrentLine st = Some i \<Longrightarrow> i < length (lines st) \<and> isCurrent (lines st ! i)"
  by (auto simp: findCurrentLine_def find_Some_iff isCurrent_def)

lemma length_filter_update_le:
  "(P (f (xs ! i)) \<Longrightarrow> P (xs ! i)) \<Longrightarrow>
   length (filter P (xs[i := f (xs ! i)])) \<le> length (filter P xs)"
proof (induction xs arbitrary: i)
  case Nil
  then show ?case by simp
next
  case (Cons x xs)
  show ?case
  proof (cases i)
    case 0
    with Cons.prems show ?thesis by auto
  next
    case (Suc j)
    with Cons.prems have "P (f (xs ! j)) \<Longrightarrow> P (xs ! j)" by simp
    from Cons.IH [OF this] Suc show ?thesis by simp
  qed
qed

lemma currentLines_updLine:
  "(isCurrent (f (lines st ! i)) \<Longrightarrow> isCurrent (lines st ! i)) \<Longrightarrow>
   length (currentLines (updLine i f st)) \<le> length (currentLines st)"
  by (simp add: currentLines_def updLine_def length_filter_update_le)

lemma isCurrent_recalculateTheLine [simp]:
  "isCurrent (snd (recalculateTheLine lin p)) = isCurrent lin"
  by (simp add: recalculateTheLine_def isCurrent_def Let_def)

lemma isCurrent_dragmoveLine [simp]: "isCurrent (dragmoveLine ty g lin) = isCurrent lin"
  by (simp add: dragmoveLine_def isCurrent_def Let_def recalculateTheLine_def)

lemma lines_addConnectorToPath [simp]:
  "lines (snd (addConnectorToPath shape lref i ty init st)) = lines st"
  by (simp add: addConnectorToPath_def Let_def fire_def split: option.splits)

lemma lines_addShape [simp]: "lines (snd (addShape shp x y idArg st)) = lines st"
  by (simp add: addShape_def Let_def)

lemma lines_createAnchorShapes [simp]: "lines (createAnchorShapes pathRect sh st) = lines st"
  by (simp add: createAnchorShapes_def cleanAnchorShapes_def Let_def)

lemma lines_exportShapes [simp]: "lines (snd (exportShapes js st)) = lines st"
proof (induction js arbitrary: st)
  case Nil
  then show ?case by simp
next
  case (Cons i js)
  obtain e node where ex: "exportShape (lines st) (shapes st ! i) = (e, node)"
    by (cases "exportShape (lines st) (shapes st ! i)")
  show ?case
  proof (cases e)
    case None
    with ex Cons.IH [of "st\<lparr>shapes := (shapes st)[i := node]\<rparr>"] show ?thesis by simp
  next
    case (Some a)
    with ex show ?thesis by simp
  qed
qed

lemma lines_exportJson [simp]: "lines (snd (exportJson st)) = lines st"
proof -
  obtain e st1 where ex: "exportShapes (findPidShapes st) st = (e, st1)"
    by (cases "exportShapes (findPidShapes st) st")
  with lines_exportShapes [of "findPidShapes st" st] have "lines st1 = lines st" by simp
  with ex show ?thesis
    by (cases e) (simp_all add: exportJson_def Let_def)
qed

lemma lines_addShapes [simp]: "lines (snd (addShapes d st)) = lines st"
proof (induction d arbitrary: st)
  case Nil
  then show ?case by simp
next
  case (Cons i d)
  obtain g st1 where a: "addShape (dto_s i) (dto_x i) (dto_y i) (id_given (dto_id i)) st = (g, st1)"
    by (cases "addShape (dto_s i) (dto_x i) (dto_y i) (id_given (dto_id i)) st")
  with lines_addShape [of "dto_s i" "dto_x i" "dto_y i" "id_given (dto_id i)" st]
  have l1: "lines st1 = lines st" by simp
  obtain gs st2 where b: "addShapes d st1 = (gs, st2)" by (cases "addShapes d st1")
  with Cons.IH [of st1] have "lines st2 = lines st1" by simp
  with a b l1 show ?case by simp
qed


lemma addConnectorToPath_lines:
  "addConnectorToPath shape lref i ty init st = (e, st') \<Longrightarrow> lines st' = lines st"
  using lines_addConnectorToPath [of shape lref i ty init st] by simp

lemma lines_endConnectingLine:
  "lines (snd (endConnectingLine pos st)) =
     (case findCurrentLine st of
        None \<Rightarrow> lines st
      | Some lref \<Rightarrow>
          lines (updLine lref (\<lambda>lin. lin\<lparr>lname := cacConnectorTwoPidShape\<rparr>)
                  (updLine lref (\<lambda>lin. snd (recalculateTheLine lin pos)) st)))"
  by (auto simp: endConnectingLine_def Let_def cleanAnchorShapes_def
      split: prod.splits option.splits dest!: addConnectorToPath_lines)

lemma currentLines_endConnectingLine:
  "length (currentLines (snd (endConnectingLine pos st))) \<le> length (currentLines st)"
proof (cases "findCurrentLine st")
  case None
  then show ?thesis by (simp add: endConnectingLine_def)
next
  case (Some lref)
  let ?st1 = "updLine lref (\<lambda>lin. snd (recalculateTheLine lin pos)) st"
  let ?st2 = "updLine lref (\<lambda>lin. lin\<lparr>lname := cacConnectorTwoPidShape\<rparr>) ?st1"
  have a: "length (currentLines ?st1) \<le> length (currentLines st)"
    by (rule currentLines_updLine) simp
  have b: "length (currentLines ?st2) \<le> length (currentLines ?st1)"
    by (rule currentLines_updLine) (simp add: isCurrent_def)
  have "lines (snd (endConnectingLine pos st)) = lines ?st2"
    using Some by (simp add: lines_endConnectingLine)
  then have "currentLines (snd (endConnectingLine pos st)) = currentLines ?st2"
    by (simp add: currentLines_def)
  with a b show ?thesis by simp
qed

lemma lines_anchorMouseUp:
  "lines (snd (anchorMouseUp a st)) = lines (snd (endConnectingLine (anchorPos a) st))"
  by (auto simp: anchorMouseUp_def split: prod.splits sum.splits option.splits
      dest!: addConnectorToPath_lines)

lemma currentLines_anchorMouseUp:
  "length (currentLines (snd (anchorMouseUp a st))) \<le> length (currentLines st)"
  using currentLines_endConnectingLine [of "anchorPos a" st]
  by (simp add: currentLines_def lines_anchorMouseUp)

lemma currentLines_stageMouseMove:
  "length (currentLines (stageMouseMove pos st)) \<le> length (currentLines st)"
  by (auto simp: stageMouseMove_def split: option.splits intro!: currentLines_updLine)

lemma currentLines_cleanAnchorShapes [simp]:
  "currentLines (cleanAnchorShapes st) = currentLines st"
  by (simp add: currentLines_def cleanAnchorShapes_def)

lemma currentLines_fire [simp]: "currentLines (fire st) = currentLines st"
  by (simp add: currentLines_def fire_def)

lemma currentLines_updShape [simp]: "currentLines (updShape i f st) = currentLines st"
  by (simp add: currentLines_def updShape_def)

lemma findCurrentLine_cleanAnchorShapes [simp]:
  "findCurrentLine (cleanAnchorShapes st) = findCurrentLine st"
  by (simp add: findCurrentLine_def cleanAnchorShapes_def)

lemma lines_cleanAnchorShapes [simp]: "lines (cleanAnchorShapes st) = lines st"
  by (simp add: cleanAnchorShapes_def)

lemma lines_updLine [simp]: "lines (updLine i f st) = (lines st)[i := f (lines st ! i)]"
  by (simp add: updLine_def)

lemma addShape_lines: "addShape shp x y idArg st = (g, st') \<Longrightarrow> lines st' = lines st"
  using lines_addShape [of shp x y idArg st] by simp

lemma lines_endConnectingLine_clean:
  "lines (snd (endConnectingLine p (cleanAnchorShapes st))) =
   lines (snd (endConnectingLine p st))"
  by (simp add: lines_endConnectingLine split: option.splits)

lemma lines_stageClick_Some:
  "lines (snd (stageClick (Some p) rnd st)) = lines (snd (endConnectingLine p st))"
proof -
  have "lines (snd (stageClick (Some p) rnd st)) =
        lines (snd (endConnectingLine p (cleanAnchorShapes st)))"
  proof (cases "findCurrentLine st")
    case None
    then show ?thesis by (simp add: stageClick_def endConnectingLine_def Let_def)
  next
    case (Some lref)
    then show ?thesis
      by (auto simp: stageClick_def Let_def createEmtpyShape_def
          split: prod.splits sum.splits option.splits
          dest!: addConnectorToPath_lines addShape_lines)
  qed
  then show ?thesis by (simp add: lines_endConnectingLine_clean)
qed

lemma currentLines_stageClick:
  "length (currentLines (snd (stageClick pos rnd st))) \<le> length (currentLines st)"
proof (cases pos)
  case None
  have "length (currentLines (updLine lref (\<lambda>lin. lin\<lparr>lineInLayer := False\<rparr>) (cleanAnchorShapes st)))
        \<le> length (currentLines (cleanAnchorShapes st))" for lref
    by (rule currentLines_updLine) (simp add: isCurrent_def)
  with None show ?thesis
    by (simp add: stageClick_def Let_def split: option.splits)
next
  case (Some p)
  with currentLines_endConnectingLine [of p st] show ?thesis
    by (simp add: currentLines_def lines_stageClick_Some)
qed

lemma currentLines_deleteLines:
  "length (currentLines (foldl (\<lambda>s c. updLine (line c) (\<lambda>lin. lin\<lparr>lineInLayer := False\<rparr>) s) st conns))
   \<le> length (currentLines st)"
proof (induction conns arbitrary: st)
  case Nil
  then show ?case by simp
next
  case (Cons c conns)
  have "length (currentLines (updLine (line c) (\<lambda>lin. lin\<lparr>lineInLayer := False\<rparr>) st))
        \<le> length (currentLines st)"
    by (rule currentLines_updLine) (simp add: isCurrent_def)
  with Cons.IH [of "updLine (line c) (\<lambda>lin. lin\<lparr>lineInLayer := False\<rparr>) st"]
  show ?case by simp
qed

lemma currentLines_deleteShape:
  "length (currentLines (deleteShape sh st)) \<le> length (currentLines st)"
  using currentLines_deleteLines [of "cleanAnchorShapes st"
      "case cacConnectors (shapes (cleanAnchorShapes st) ! sh) of None \<Rightarrow> [] | Some cs \<Rightarrow> cs"]
  by (simp add: deleteShape_def Let_def)

lemma currentLines_clear: "currentLines (clear st) = []"
  by (simp add: currentLines_def clear_def isCurrent_def filter_empty_conv)

lemma currentLines_dragmoveConnectors:
  "length (filter isCurrent (snd (dragmoveConnectors shp gp cs ls))) \<le> length (filter isCurrent ls)"
proof (induction cs arbitrary: ls)
  case Nil
  then show ?case by simp
next
  case (Cons c cs)
  show ?case
  proof (cases "array_index (anchors shp) (anchorIndex c)")
    case None
    then show ?thesis by simp
  next
    case (Some anchor)
    let ?f = "dragmoveLine (ctype c) (fst gp + a_x anchor, snd gp + a_y anchor)"
    have "length (filter isCurrent (ls[line c := ?f (ls ! line c)])) \<le> length (filter isCurrent ls)"
      by (rule length_filter_update_le) simp
    with Cons.IH [of "ls[line c := ?f (ls ! line c)]"] Some show ?thesis by simp
  qed
qed

lemma currentLines_groupDragMove:
  "length (currentLines (snd (groupDragMove sh st))) \<le> length (currentLines st)"
proof (cases "cacConnectors (shapes st ! sh)")
  case None
  then show ?thesis by (simp add: groupDragMove_def)
next
  case (Some cs)
  obtain e ls where d: "dragmoveConnectors (pidShape (shapes st ! sh))
      (groupPos (shapes st ! sh)) cs (lines st) = (e, ls)"
    by (cases "dragmoveConnectors (pidShape (shapes st ! sh))
      (groupPos (shapes st ! sh)) cs (lines st)")
  with currentLines_dragmoveConnectors [of "pidShape (shapes st ! sh)"
      "groupPos (shapes st ! sh)" cs "lines st"]
  have "length (filter isCurrent ls) \<le> length (filter isCurrent (lines st))" by simp
  with Some d show ?thesis by (simp add: groupDragMove_def currentLines_def)
qed

lemma currentLines_importConn:
  "currentLines (snd (importConn gs dto conn st)) = currentLines st"
  by (auto simp: importConn_def Let_def currentLines_def isCurrent_def
      split: option.splits prod.splits dest!: addConnectorToPath_lines)

lemma currentLines_importConns:
  "currentLines (snd (importConns gs dto conns st)) = currentLines st"
proof (induction conns arbitrary: st)
  case Nil
  then show ?case by simp
next
  case (Cons conn conns)
  obtain e st1 where r: "importConn gs dto conn st = (e, st1)"
    by (cases "importConn gs dto conn st")
  with currentLines_importConn [of gs dto conn st]
  have "currentLines st1 = currentLines st" by simp
  with r Cons.IH [of st1] show ?case by (cases e) simp_all
qed

lemma currentLines_importDtos:
  "currentLines (snd (importDtos gs d st)) = currentLines st"
proof (induction d arbitrary: st)
  case Nil
  then show ?case by simp
next
  case (Cons dto d)
  obtain e st1 where r: "importConns gs dto (dto_c dto) st = (e, st1)"
    by (cases "importConns gs dto (dto_c dto) st")
  with currentLines_importConns [of gs dto "dto_c dto" st]
  have "currentLines st1 = currentLines st" by simp
  with r Cons.IH [of st1] show ?case by (cases e) simp_all
qed

lemma currentLines_importJson:
  "currentLines (snd (importJson data st)) = currentLines st"
proof (cases data)
  case None
  then show ?thesis by (simp add: importJson_def)
next
  case (Some d)
  obtain gs st1 where a: "addShapes d st = (gs, st1)" by (cases "addShapes d st")
  with lines_addShapes [of d st] have c1: "currentLines st1 = currentLines st"
    by (simp add: currentLines_def)
  obtain e st2 where b: "importDtos gs d st1 = (e, st2)" by (cases "importDtos gs d st1")
  with currentLines_importDtos [of gs d st1] have "currentLines st2 = currentLines st1"
    by simp
  with Some a b c1 show ?thesis by (cases e) (simp_all add: importJson_def)
qed

lemma currentLines_anchorMouseDown:
  "length (currentLines st) \<le> 1 \<Longrightarrow> length (currentLines (anchorMouseDown a st)) \<le> 1"
proof (cases "findCurrentLine st")
  case None
  then have "currentLines st = []" by (simp add: findCurrentLine_None)
  with None show ?thesis
    by (simp add: anchorMouseDown_def Let_def currentLines_def)
next
  case (Some lref)
  assume "length (currentLines st) \<le> 1"
  with Some show ?thesis by (simp add: anchorMouseDown_def)
qed

lemma anchorMouseDown_noop:
  "currentLines st \<noteq> [] \<Longrightarrow> anchorMouseDown a st = st"
  by (cases "findCurrentLine st") (simp_all add: findCurrentLine_None anchorMouseDown_def)

lemma currentLines_step:
  "length (currentLines st) \<le> 1 \<Longrightarrow> length (currentLines (step pathRect st ev)) \<le> 1"
proof (cases ev)
  case (AddShape shp x y idArg)
  assume "length (currentLines st) \<le> 1"
  with AddShape show ?thesis by (simp add: currentLines_def)
next
  case (Click sh)
  assume "length (currentLines st) \<le> 1"
  with Click show ?thesis by (simp add: currentLines_def groupClick_def)
next
  case (MouseOver sh)
  assume "length (currentLines st) \<le> 1"
  with MouseOver show ?thesis
    by (simp add: currentLines_def groupMouseOver_def split: option.splits)
next
  case (MouseDown sh)
  assume "length (currentLines st) \<le> 1"
  with MouseDown show ?thesis by (simp add: groupMouseDown_def)
next
  case (DragMove sh p)
  assume a: "length (currentLines st) \<le> 1"
  from currentLines_groupDragMove [of sh "updShape sh (\<lambda>node. node\<lparr>groupPos := p\<rparr>) st"]
  have "length (currentLines (snd (groupDragMove sh (updShape sh (\<lambda>node. node\<lparr>groupPos := p\<rparr>) st))))
        \<le> length (currentLines st)" by simp
  with a DragMove show ?thesis by simp
next
  case (DragEnd sh)
  assume "length (currentLines st) \<le> 1"
  with DragEnd show ?thesis by (simp add: groupDragEnd_def)
next
  case (AnchorMouseDown k)
  assume a: "length (currentLines st) \<le> 1"
  from currentLines_anchorMouseDown [OF a, of "anchorShapes st ! k"] a AnchorMouseDown
  show ?thesis by simp
next
  case (AnchorMouseUp k)
  assume a: "length (currentLines st) \<le> 1"
  from currentLines_anchorMouseUp [of "anchorShapes st ! k" st] a AnchorMouseUp
  show ?thesis by simp
next
  case (StageClick pos rnd)
  assume a: "length (currentLines st) \<le> 1"
  from currentLines_stageClick [of pos rnd st] a StageClick show ?thesis by simp
next
  case (StageMouseMove pos)
  assume a: "length (currentLines st) \<le> 1"
  from currentLines_stageMouseMove [of pos st] a StageMouseMove show ?thesis by simp
next
  case (MenuDelete sh)
  assume a: "length (currentLines st) \<le> 1"
  from currentLines_deleteShape [of sh "cleanAnchorShapes st"] a MenuDelete
  show ?thesis by simp
next
  case ExportJson
  assume "length (currentLines st) \<le> 1"
  with ExportJson show ?thesis by (simp add: currentLines_def)
next
  case (ImportJson data)
  assume "length (currentLines st) \<le> 1"
  with ImportJson show ?thesis by (simp add: currentLines_importJson)
next
  case Clear
  then show ?thesis by (simp add: currentLines_clear)
qed

lemma currentLines_foldl_step:
  "length (currentLines st) \<le> 1 \<Longrightarrow>
   length (currentLines (foldl (step pathRect) st evs)) \<le> 1"
proof (induction evs arbitrary: st)
  case Nil
  then show ?case by simp
next
  case (Cons ev evs)
  from Cons.prems have "length (currentLines (step pathRect st ev)) \<le> 1"
    by (rule currentLines_step)
  then have "length (currentLines (foldl (step pathRect) (step pathRect st ev) evs)) \<le> 1"
    by (rule Cons.IH)
  then show ?case by simp
qed

text \<open>
  C9. Whatever the events since the editor was created, the layer holds at most one line in
  progress; and in every state with a line in progress, pressing down on an anchor changes
  nothing.
\<close>

theorem one_line_in_progress:
  "length (currentLines (run pathRect evs)) \<le> 1 \<and>
   (currentLines st \<noteq> [] \<longrightarrow> step pathRect st (AnchorMouseDown k) = st)"
proof
  have "length (currentLines initEditor) \<le> 1"
    by (simp add: currentLines_def initEditor_def)
  then show "length (currentLines (run pathRect evs)) \<le> 1"
    unfolding run_def by (rule currentLines_foldl_step)
  show "currentLines st \<noteq> [] \<longrightarrow> step pathRect st (AnchorMouseDown k) = st"
    by (simp add: anchorMouseDown_noop)
qed

theorem one_line_in_progress_witness:
  "currentLines (run (\<lambda>s. (0, 0)) [AddShape emptyEnd 0 0 (id_given 1), Click 0, AnchorMouseDown 0]) \<noteq> []
   \<and> step (\<lambda>s. (0, 0)) (run (\<lambda>s. (0, 0)) [AddShape emptyEnd 0 0 (id_given 1), Click 0, AnchorMouseDown 0])
        (AnchorMouseDown 1) =
       run (\<lambda>s. (0, 0)) [AddShape emptyEnd 0 0 (id_given 1), Click 0, AnchorMouseDown 0]
   \<and> length (anchorShapes (run (\<lambda>s. (0, 0)) [AddShape emptyEnd 0 0 (id_given 1), Click 0, AnchorMouseDown 0])) = 2"
proof -
  have ne: "currentLines (run (\<lambda>s. (0, 0)) [AddShape emptyEnd 0 0 (id_given 1), Click 0, AnchorMouseDown 0]) \<noteq> []"
    by (simp add: handler_defs currentLines_def isCurrent_def)
  have len: "length (anchorShapes (run (\<lambda>s. (0, 0)) [AddShape emptyEnd 0 0 (id_given 1), Click 0, AnchorMouseDown 0])) = 2"
    by (simp add: handler_defs)
  from one_line_in_progress [of "\<lambda>s. (0, 0)" "[]"
      "run (\<lambda>s. (0, 0)) [AddShape emptyEnd 0 0 (id_given 1), Click 0, AnchorMouseDown 0]" 1] ne len
  show ?thesis by blast
qed

subsection \<open>Deleting a connected shape\<close>

text \<open>
  C4 fails on the code. Shape 1 and shape 2 are added, and a line is drawn from the second
  anchor of shape 1 to the first anchor of shape 2, so the connection is stored on shape 2.
  After \<^verbatim>\<open>Delete\<close> on shape 1 the export holds shape 2 alone, still with the connection
  whose \<open>sid\<close> is 1: \<^verbatim>\<open>#deleteShape\<close> destroys the lines of the deleted shape and leaves
  the record on the shape at the other end.
\<close>

theorem deleteShape_leaves_record:
  "fst (exportJson (run (\<lambda>s. (0, 0))
      [AddShape emptyEnd 0 0 (id_given 1), AddShape emptyEnd 100 0 (id_given 2), Click 0,
       AnchorMouseDown 1, MouseOver 1, AnchorMouseUp 0, MenuDelete 0])) =
     Inr [\<lparr>dto_s = emptyEnd, dto_x = 100, dto_y = 0, dto_id = 2,
           dto_c = [\<lparr>conn_l = map Some [14, 7, 57, 7, 57, 7, 100, 7], sai = 1, sid = 1,
                     eai = 0\<rparr>]\<rparr>]"
  by (simp add: handler_defs)

subsection \<open>Releasing a line over the empty canvas\<close>

text \<open>
  C8 fails on the code when the shape at the start of the line in progress was deleted in
  between: the click on the stage recalculates and renames the line, finds no start shape,
  and throws in \<^verbatim>\<open>#addConnectorToPath\<close> before the stub is created. No shape and no
  connection is added.
\<close>

theorem stageClick_after_delete_throws:
  "stageClick (Some (50, 60)) (1 / 2)
     (run (\<lambda>s. (0, 0)) [AddShape emptyEnd 0 0 (id_given 1), Click 0, AnchorMouseDown 1,
        MenuDelete 0]) =
   (Some TypeError,
    (run (\<lambda>s. (0, 0)) [AddShape emptyEnd 0 0 (id_given 1), Click 0, AnchorMouseDown 1,
        MenuDelete 0])
      \<lparr>lines := [\<lparr>points = map Some [14, 7, 32, 7, 32, 60, 50, 60],
                  lname = cacConnectorTwoPidShape, cacStartAnchorIndex = 1,
                  cacStartPidShapeId = 1, lineInLayer = True\<rparr>]\<rparr>)
   \<and> currentLines (run (\<lambda>s. (0, 0)) [AddShape emptyEnd 0 0 (id_given 1), Click 0,
        AnchorMouseDown 1, MenuDelete 0]) \<noteq> []
   \<and> length (shapes (snd (stageClick (Some (50, 60)) (1 / 2)
     (run (\<lambda>s. (0, 0)) [AddShape emptyEnd 0 0 (id_given 1), Click 0, AnchorMouseDown 1,
        MenuDelete 0])))) = 1"
  by (simp add: handler_defs currentLines_def isCurrent_def)

subsection \<open>Import and export\<close>

lemma refreshLines_id:
  "map (\<lambda>c. points (ls ! line c)) cs = map conn_l (drop k recs) \<Longrightarrow>
   refreshLines ls cs k recs = (None, recs)"
proof (induction cs arbitrary: k)
  case Nil
  then show ?case by simp
next
  case (Cons c cs)
  from Cons.prems have ne: "drop k recs \<noteq> []" by auto
  then have k: "k < length recs" by simp
  then have d: "drop k recs = recs ! k # drop (Suc k) recs"
    by (simp add: Cons_nth_drop_Suc)
  with Cons.prems have p: "points (ls ! line c) = conn_l (recs ! k)"
    and r: "map (\<lambda>c. points (ls ! line c)) cs = map conn_l (drop (Suc k) recs)"
    by simp_all
  from p have "recs[k := (recs ! k)\<lparr>conn_l := points (ls ! line c)\<rparr>] = recs"
    by simp
  with k Cons.IH [OF r] show ?case by simp
qed

lemma exportShape_consistent:
  "consistent ls node \<Longrightarrow> exportShape ls node = (None, node)"
  by (cases "cacConnectors node")
    (simp_all add: exportShape_def consistent_def connectorsOf_def refreshLines_id)

lemma exportShapes_consistent:
  "list_all (\<lambda>i. consistent (lines st) (shapes st ! i)) js \<Longrightarrow> exportShapes js st = (None, st)"
  by (induction js) (simp_all add: exportShape_consistent)

lemma findPidShapes_all:
  "list_all inLayer (shapes st) \<Longrightarrow> findPidShapes st = [0..<length (shapes st)]"
  by (simp add: findPidShapes_def list_all_length)

lemma exportJson_consistent:
  assumes "list_all inLayer (shapes st)" and "list_all (consistent (lines st)) (shapes st)"
  shows "exportJson st = (Inr (map cacDto (shapes st)), st)"
proof -
  from assms(2) have "list_all (\<lambda>i. consistent (lines st) (shapes st ! i)) [0..<length (shapes st)]"
    by (simp add: list_all_length)
  then have "exportShapes [0..<length (shapes st)] st = (None, st)"
    by (rule exportShapes_consistent)
  moreover have "map (\<lambda>i. cacDto (shapes st ! i)) [0..<length (shapes st)] = map cacDto (shapes st)"
    by (rule nth_equalityI) simp_all
  ultimately show ?thesis
    using findPidShapes_all [OF assms(1)] by (simp add: exportJson_def Let_def)
qed

lemma importInv_iff:
  "importInv D st \<longleftrightarrow>
     length (shapes st) = length D \<and>
     (\<forall>j<length D. (cacDto (shapes st ! j))\<lparr>dto_c := []\<rparr> = (D ! j)\<lparr>dto_c := []\<rparr> \<and>
        inLayer (shapes st ! j) \<and> consistent (lines st) (shapes st ! j))"
  unfolding importInv_def list_all_length list_eq_iff_nth_eq by auto

lemma addShapes_eq:
  "addShapes d st =
     ([length (shapes st)..<length (shapes st) + length d],
      st\<lparr>shapes := shapes st @
        map (\<lambda>i. \<lparr>pidShape = dto_s i, groupPos = (dto_x i, dto_y i),
                   cacDto = \<lparr>dto_s = dto_s i, dto_x = dto_x i, dto_y = dto_y i,
                             dto_id = dto_id i, dto_c = []\<rparr>,
                   cacConnectors = None, inLayer = True\<rparr>) d\<rparr>)"
proof (induction d arbitrary: st)
  case Nil
  then show ?case by simp
next
  case (Cons i d)
  have u: "n # [Suc n..<Suc (n + k)] = [n..<Suc (n + k)]" for n k :: nat
    by (subst (2) upt_rec) (simp del: upt_Suc)
  show ?case
    by (simp add: Cons.IH addShape_def Let_def u del: upt_Suc)
qed

lemma importInv_addShapes: "importInv D (snd (addShapes D initEditor))"
  by (simp add: addShapes_eq importInv_iff initEditor_def consistent_def connectorsOf_def)

lemma addConnectorToPath_ok:
  "fst (addConnectorToPath (Some sh) lref i ty init st) = None"
  by (simp add: addConnectorToPath_def Let_def)

lemma consistent_add_connector:
  assumes "consistent ls node" and "lref < length ls"
  shows "consistent ls (node\<lparr>cacConnectors := Some (connectorsOf node @
            [\<lparr>line = lref, anchorIndex = i, ctype = conn_start\<rparr>])\<rparr>)"
    and "consistent ls (node\<lparr>cacConnectors := Some (connectorsOf node @
            [\<lparr>line = lref, anchorIndex = i, ctype = conn_end\<rparr>]),
          cacDto := (cacDto node)\<lparr>dto_c := dto_c (cacDto node) @
            [\<lparr>conn_l = points (ls ! lref), sai = a, sid = b, eai = i\<rparr>]\<rparr>\<rparr>)"
  using assms by (simp_all add: consistent_def connectorsOf_def)

lemma addConnectorToPath_shapes:
  "shapes (snd (addConnectorToPath (Some sh) lref i ty True st)) =
     (shapes st)[sh :=
        (if ty = conn_end
         then (shapes st ! sh)\<lparr>cacConnectors := Some (connectorsOf (shapes st ! sh) @
                  [\<lparr>line = lref, anchorIndex = i, ctype = conn_end\<rparr>]),
                cacDto := (cacDto (shapes st ! sh))\<lparr>dto_c := dto_c (cacDto (shapes st ! sh)) @
                  [\<lparr>conn_l = points (lines st ! lref), sai = cacStartAnchorIndex (lines st ! lref),
                    sid = cacStartPidShapeId (lines st ! lref), eai = i\<rparr>]\<rparr>\<rparr>
         else (shapes st ! sh)\<lparr>cacConnectors := Some (connectorsOf (shapes st ! sh) @
                  [\<lparr>line = lref, anchorIndex = i, ctype = conn_start\<rparr>])\<rparr>)]"
  by (cases ty) (simp_all add: addConnectorToPath_def Let_def connectorsOf_def)

lemma addConnectorToPath_shapes_start:
  "shapes (snd (addConnectorToPath (Some sh) lref i conn_start init st)) =
     (shapes st)[sh := (shapes st ! sh)\<lparr>cacConnectors := Some (connectorsOf (shapes st ! sh) @
                  [\<lparr>line = lref, anchorIndex = i, ctype = conn_start\<rparr>])\<rparr>]"
  by (simp add: addConnectorToPath_def Let_def connectorsOf_def)

lemma consistent_append: "consistent ls node \<Longrightarrow> consistent (ls @ [l]) node"
proof -
  assume c: "consistent ls node"
  then have v: "list_all (\<lambda>c. line c < length ls) (connectorsOf node)"
    by (simp add: consistent_def)
  have "map (\<lambda>c. points ((ls @ [l]) ! line c))
               (filter (\<lambda>c. ctype c = conn_end) (connectorsOf node)) =
             map (\<lambda>c. points (ls ! line c))
               (filter (\<lambda>c. ctype c = conn_end) (connectorsOf node))"
    using v by (intro map_cong refl) (auto simp: list_all_iff nth_append)
  also from c have "\<dots> = map conn_l (dto_c (cacDto node))"
    by (simp add: consistent_def)
  finally have e: "map (\<lambda>c. points ((ls @ [l]) ! line c))
               (filter (\<lambda>c. ctype c = conn_end) (connectorsOf node)) =
             map conn_l (dto_c (cacDto node))" .
  from v have "list_all (\<lambda>c. line c < length (ls @ [l])) (connectorsOf node)"
    by (auto simp: list_all_iff)
  with e show ?thesis unfolding consistent_def by blast
qed

lemma consistent_inLayer:
  "consistent (ls[k := (ls ! k)\<lparr>lineInLayer := b\<rparr>]) node = consistent ls node"
proof -
  have "points ((ls[k := (ls ! k)\<lparr>lineInLayer := b\<rparr>]) ! m) = points (ls ! m)" for m
    by (cases "k < length ls") (simp_all add: nth_list_update list_update_beyond)
  then show ?thesis by (simp add: consistent_def)
qed

lemma importInv_append_line:
  "importInv D st \<Longrightarrow> importInv D (st\<lparr>lines := lines st @ [l]\<rparr>)"
  by (simp add: importInv_iff consistent_append)

lemma importInv_inLayer:
  "importInv D st \<Longrightarrow> importInv D (updLine k (\<lambda>lin. lin\<lparr>lineInLayer := True\<rparr>) st)"
  by (simp add: importInv_iff updLine_def consistent_inLayer)

lemma importInv_addConnector_start:
  assumes "importInv D st" and "sh < length D" and "lref < length (lines st)"
  shows "importInv D (snd (addConnectorToPath (Some sh) lref i conn_start init st))"
  using assms
  by (simp add: importInv_iff addConnectorToPath_shapes_start nth_list_update
      consistent_add_connector)

lemma importInv_addConnector_end:
  assumes "importInv D st" and "sh < length D" and "lref < length (lines st)"
  shows "importInv D (snd (addConnectorToPath (Some sh) lref i conn_end True st))"
  using assms
  by (simp add: importInv_iff addConnectorToPath_shapes nth_list_update
      consistent_add_connector)

lemma importInv_find:
  assumes "importInv D st"
  shows "find (\<lambda>g. dto_id (cacDto (shapes st ! g)) = i) [0..<length D] = owner D i"
proof -
  have "dto_id (cacDto (shapes st ! g)) = dto_id (D ! g)" if "g < length D" for g
  proof -
    from assms that have "(cacDto (shapes st ! g))\<lparr>dto_c := []\<rparr> = (D ! g)\<lparr>dto_c := []\<rparr>"
      by (simp add: importInv_iff)
    then have "dto_id ((cacDto (shapes st ! g))\<lparr>dto_c := []\<rparr>) = dto_id ((D ! g)\<lparr>dto_c := []\<rparr>)"
      by simp
    then show ?thesis by simp
  qed
  then show ?thesis unfolding owner_def by (intro find_cong refl) simp
qed

lemma owner_Some: "owner D i = Some s \<Longrightarrow> s < length D \<and> dto_id (D ! s) = i"
  by (auto simp: owner_def find_Some_iff)

lemma owner_None: "owner D i = None \<longleftrightarrow> i \<notin> set (map dto_id D)"
  by (force simp: owner_def find_None_iff in_set_conv_nth)

lemma owner_of_entry: "dto \<in> set D \<Longrightarrow> \<exists>e. owner D (dto_id dto) = Some e"
  by (cases "owner D (dto_id dto)") (auto simp: owner_None)

lemma record_of_conn:
  "\<lparr>conn_l = conn_l conn, sai = sai conn, sid = sid conn, eai = eai conn\<rparr> = (conn :: IDtoConn)"
  by simp

lemma importConn_step:
  assumes inv: "importInv D st" and dto: "dto \<in> set D"
  shows "fst (importConn [0..<length D] dto conn st) = None
    \<and> importInv D (snd (importConn [0..<length D] dto conn st))
    \<and> (\<forall>j<length D.
          dto_c (cacDto (shapes (snd (importConn [0..<length D] dto conn st)) ! j)) =
          dto_c (cacDto (shapes st ! j)) @
            (if owner D (sid conn) \<noteq> None \<and> owner D (dto_id dto) = Some j then [conn] else []))"
proof -
  define newLine where "newLine = \<lparr>points = conn_l conn, lname = cacConnectorTwoPidShape,
      cacStartAnchorIndex = sai conn, cacStartPidShapeId = sid conn, lineInLayer = False\<rparr>"
  define st1 where "st1 = st\<lparr>lines := lines st @ [newLine]\<rparr>"
  define lref where "lref = length (lines st)"
  have inv1: "importInv D st1"
    unfolding st1_def using inv by (rule importInv_append_line)
  have lref1: "lref < length (lines st1)" by (simp add: st1_def lref_def)
  have sh1: "shapes st1 = shapes st" by (simp add: st1_def)
  have line1: "lines st1 ! lref = newLine" by (simp add: st1_def lref_def)
  have find1: "find (\<lambda>g. dto_id (cacDto (shapes st1 ! g)) = sid conn) [0..<length D] =
               owner D (sid conn)"
    using inv1 by (rule importInv_find)
  have unfold: "importConn [0..<length D] dto conn st =
     (case owner D (sid conn) of
        None \<Rightarrow> (None, st1)
      | Some s \<Rightarrow>
          (case addConnectorToPath (Some s) lref (sai conn) conn_start False st1 of
             (Some e, st2) \<Rightarrow> (Some e, st2)
           | (None, st2) \<Rightarrow>
               (case addConnectorToPath
                       (find (\<lambda>g. dto_id (cacDto (shapes st2 ! g)) = dto_id dto) [0..<length D])
                       lref (eai conn) conn_end True st2 of
                  (Some e, st3) \<Rightarrow> (Some e, st3)
                | (None, st3) \<Rightarrow> (None, updLine lref (\<lambda>lin. lin\<lparr>lineInLayer := True\<rparr>) st3))))"
    unfolding importConn_def Let_def newLine_def [symmetric] st1_def [symmetric]
      lref_def [symmetric] find1 ..
  show ?thesis
  proof (cases "owner D (sid conn)")
    case None
    with unfold have "importConn [0..<length D] dto conn st = (None, st1)" by simp
    with inv1 None sh1 show ?thesis by simp
  next
    case (Some s)
    then have s: "s < length D" by (simp add: owner_Some)
    from owner_of_entry [OF dto] obtain e where e: "owner D (dto_id dto) = Some e" ..
    then have e': "e < length D" by (simp add: owner_Some)
    define st2 where "st2 = snd (addConnectorToPath (Some s) lref (sai conn) conn_start False st1)"
    have r2: "addConnectorToPath (Some s) lref (sai conn) conn_start False st1 = (None, st2)"
      by (simp add: st2_def prod_eq_iff addConnectorToPath_ok)
    have inv2: "importInv D st2"
      unfolding st2_def using inv1 s lref1 by (rule importInv_addConnector_start)
    have lines2: "lines st2 = lines st1" by (simp add: st2_def)
    have find2: "find (\<lambda>g. dto_id (cacDto (shapes st2 ! g)) = dto_id dto) [0..<length D] = Some e"
      using importInv_find [OF inv2] e by simp
    define st3 where "st3 = snd (addConnectorToPath (Some e) lref (eai conn) conn_end True st2)"
    have r3: "addConnectorToPath (Some e) lref (eai conn) conn_end True st2 = (None, st3)"
      by (simp add: st3_def prod_eq_iff addConnectorToPath_ok)
    have inv3: "importInv D st3"
      unfolding st3_def using inv2 e' lref1 [folded lines2]
      by (rule importInv_addConnector_end)
    have res: "importConn [0..<length D] dto conn st =
        (None, updLine lref (\<lambda>lin. lin\<lparr>lineInLayer := True\<rparr>) st3)"
      using unfold Some r2 find2 r3 by simp
    have inv4: "importInv D (updLine lref (\<lambda>lin. lin\<lparr>lineInLayer := True\<rparr>) st3)"
      using inv3 by (rule importInv_inLayer)
    have len: "length (shapes st) = length D" using inv by (simp add: importInv_iff)
    have dc2: "dto_c (cacDto (shapes st2 ! j)) = dto_c (cacDto (shapes st ! j))" for j
      using s len
      by (cases "j = s") (simp_all add: st2_def addConnectorToPath_shapes_start sh1)
    have dc3: "dto_c (cacDto (shapes st3 ! j)) =
        dto_c (cacDto (shapes st2 ! j)) @ (if j = e then [conn] else [])" if "j < length D" for j
    proof -
      have l2: "length (shapes st2) = length D" using inv2 by (simp add: importInv_iff)
      show ?thesis
        using that l2 e'
        by (simp add: st3_def addConnectorToPath_shapes nth_list_update lines2 line1
            newLine_def)
    qed
    have "\<forall>j<length D.
          dto_c (cacDto (shapes (updLine lref (\<lambda>lin. lin\<lparr>lineInLayer := True\<rparr>) st3) ! j)) =
          dto_c (cacDto (shapes st ! j)) @ (if j = e then [conn] else [])"
      by (simp add: updLine_def dc3 dc2)
    with res inv4 Some e show ?thesis by auto
  qed
qed

lemma importConns_steps:
  assumes "importInv D st" and "dto \<in> set D"
  shows "fst (importConns [0..<length D] dto conns st) = None
    \<and> importInv D (snd (importConns [0..<length D] dto conns st))
    \<and> (\<forall>j<length D.
          dto_c (cacDto (shapes (snd (importConns [0..<length D] dto conns st)) ! j)) =
          dto_c (cacDto (shapes st ! j)) @
            (if owner D (dto_id dto) = Some j
             then filter (\<lambda>c. owner D (sid c) \<noteq> None) conns else []))"
  using assms(1)
proof (induction conns arbitrary: st)
  case Nil
  then show ?case by simp
next
  case (Cons conn conns)
  define st1 where "st1 = snd (importConn [0..<length D] dto conn st)"
  from importConn_step [OF Cons.prems assms(2), of conn]
  have r: "importConn [0..<length D] dto conn st = (None, st1)"
    and inv1: "importInv D st1"
    and c1: "\<forall>j<length D. dto_c (cacDto (shapes st1 ! j)) =
          dto_c (cacDto (shapes st ! j)) @
            (if owner D (sid conn) \<noteq> None \<and> owner D (dto_id dto) = Some j then [conn] else [])"
    by (simp_all add: st1_def prod_eq_iff)
  from Cons.IH [OF inv1] r c1 show ?case by auto
qed

lemma importDtos_steps:
  assumes "importInv D st" and "set ds \<subseteq> set D"
  shows "fst (importDtos [0..<length D] ds st) = None
    \<and> importInv D (snd (importDtos [0..<length D] ds st))
    \<and> (\<forall>j<length D.
          dto_c (cacDto (shapes (snd (importDtos [0..<length D] ds st)) ! j)) =
          dto_c (cacDto (shapes st ! j)) @
            concat (map (\<lambda>d. if owner D (dto_id d) = Some j
                              then filter (\<lambda>c. owner D (sid c) \<noteq> None) (dto_c d) else []) ds))"
  using assms
proof (induction ds arbitrary: st)
  case Nil
  then show ?case by simp
next
  case (Cons dto ds)
  then have mem: "dto \<in> set D" and sub: "set ds \<subseteq> set D" by simp_all
  define st1 where "st1 = snd (importConns [0..<length D] dto (dto_c dto) st)"
  from importConns_steps [OF Cons.prems(1) mem, of "dto_c dto"]
  have r: "importConns [0..<length D] dto (dto_c dto) st = (None, st1)"
    and inv1: "importInv D st1"
    and c1: "\<forall>j<length D. dto_c (cacDto (shapes st1 ! j)) =
          dto_c (cacDto (shapes st ! j)) @
            (if owner D (dto_id dto) = Some j
             then filter (\<lambda>c. owner D (sid c) \<noteq> None) (dto_c dto) else [])"
    by (simp_all add: st1_def prod_eq_iff)
  from Cons.IH [OF inv1 sub] r c1 show ?case by auto
qed

lemma dto_from_parts:
  "d\<lparr>dto_c := []\<rparr> = d'\<lparr>dto_c := []\<rparr> \<Longrightarrow> (d :: IDtoPidShape) = d'\<lparr>dto_c := dto_c d\<rparr>"
  by (cases d, cases d') simp

lemma importJson_result:
  "fst (importJson (Some D) initEditor) = Inr (Some [0..<length D])
   \<and> fst (exportJson (snd (importJson (Some D) initEditor))) =
       Inr (map (\<lambda>j. (D ! j)\<lparr>dto_c :=
              concat (map (\<lambda>d. if owner D (dto_id d) = Some j
                              then filter (\<lambda>c. owner D (sid c) \<noteq> None) (dto_c d) else []) D)\<rparr>)
            [0..<length D])"
proof -
  define st1 where "st1 = snd (addShapes D initEditor)"
  have a: "addShapes D initEditor = ([0..<length D], st1)"
    by (simp add: st1_def addShapes_eq initEditor_def)
  have inv1: "importInv D st1" unfolding st1_def by (rule importInv_addShapes)
  have c1: "dto_c (cacDto (shapes st1 ! j)) = []" if "j < length D" for j
    using that by (simp add: st1_def addShapes_eq initEditor_def)
  define st2 where "st2 = snd (importDtos [0..<length D] D st1)"
  from importDtos_steps [OF inv1 subset_refl]
  have r: "importDtos [0..<length D] D st1 = (None, st2)"
    and inv2: "importInv D st2"
    and c2: "\<forall>j<length D. dto_c (cacDto (shapes st2 ! j)) =
          dto_c (cacDto (shapes st1 ! j)) @
            concat (map (\<lambda>d. if owner D (dto_id d) = Some j
                              then filter (\<lambda>c. owner D (sid c) \<noteq> None) (dto_c d) else []) D)"
    by (simp_all add: st2_def prod_eq_iff)
  have imp: "importJson (Some D) initEditor = (Inr (Some [0..<length D]), st2)"
    by (simp add: importJson_def a r)
  from inv2 have len: "length (shapes st2) = length D"
    by (simp add: importInv_iff)
  from inv2 have ex: "exportJson st2 = (Inr (map cacDto (shapes st2)), st2)"
    unfolding importInv_def by (intro exportJson_consistent) simp_all
  have "map cacDto (shapes st2) =
        map (\<lambda>j. (D ! j)\<lparr>dto_c :=
              concat (map (\<lambda>d. if owner D (dto_id d) = Some j
                              then filter (\<lambda>c. owner D (sid c) \<noteq> None) (dto_c d) else []) D)\<rparr>)
            [0..<length D]"
  proof (rule nth_equalityI)
    show "length (map cacDto (shapes st2)) = length (map (\<lambda>j. (D ! j)\<lparr>dto_c :=
              concat (map (\<lambda>d. if owner D (dto_id d) = Some j
                              then filter (\<lambda>c. owner D (sid c) \<noteq> None) (dto_c d) else []) D)\<rparr>)
            [0..<length D])"
      by (simp add: len)
  next
    fix j assume "j < length (map cacDto (shapes st2))"
    then have j: "j < length D" by (simp add: len)
    with inv2 have "(cacDto (shapes st2 ! j))\<lparr>dto_c := []\<rparr> = (D ! j)\<lparr>dto_c := []\<rparr>"
      by (simp add: importInv_iff)
    then have "cacDto (shapes st2 ! j) = (D ! j)\<lparr>dto_c := dto_c (cacDto (shapes st2 ! j))\<rparr>"
      by (rule dto_from_parts)
    with c2 c1 j len show "map cacDto (shapes st2) ! j = map (\<lambda>j. (D ! j)\<lparr>dto_c :=
              concat (map (\<lambda>d. if owner D (dto_id d) = Some j
                              then filter (\<lambda>c. owner D (sid c) \<noteq> None) (dto_c d) else []) D)\<rparr>)
            [0..<length D] ! j"
      by simp
  qed
  with imp ex show ?thesis by simp
qed

lemma owner_distinct:
  assumes "distinct (map dto_id D)" and "k < length D"
  shows "owner D (dto_id (D ! k)) = Some k"
proof -
  have "dto_id (D ! j) \<noteq> dto_id (D ! k)" if "j < k" for j
  proof
    assume eq: "dto_id (D ! j) = dto_id (D ! k)"
    from nth_eq_iff_index_eq [OF assms(1), of j k] that assms(2) eq
    show False by simp
  qed
  with assms(2) show ?thesis
    unfolding owner_def find_Some_iff by (intro exI [of _ k]) simp
qed

lemma concat_if_notin:
  "j \<notin> set ks \<Longrightarrow> concat (map (\<lambda>k. if k = j then G k else []) ks) = []"
  by (induction ks) auto

lemma upt_split: "j < n \<Longrightarrow> [0..<n] = [0..<j] @ j # [Suc j..<n]"
  by (induction n) (auto simp: less_Suc_eq)

lemma concat_if_upt:
  assumes "j < n"
  shows "concat (map (\<lambda>k. if k = j then G k else []) [0..<n]) = G j"
  using upt_split [OF assms] by (simp add: concat_if_notin)

lemma concat_owner_distinct:
  assumes "distinct (map dto_id D)" and "j < length D"
  shows "concat (map (\<lambda>d. if owner D (dto_id d) = Some j then F d else []) D) = F (D ! j)"
proof -
  have "map (\<lambda>d. if owner D (dto_id d) = Some j then F d else []) D =
        map (\<lambda>k. if k = j then F (D ! k) else []) [0..<length D]"
    by (rule nth_equalityI) (auto simp: owner_distinct [OF assms(1)])
  with concat_if_upt [OF assms(2), of "\<lambda>k. F (D ! k)"] show ?thesis by simp
qed

lemma sum_owner_mset:
  "set ds \<subseteq> set D \<Longrightarrow>
   (\<Sum>j = 0..<length D. mset (concat (map (\<lambda>d. if owner D (dto_id d) = Some j then F d else []) ds))) =
   mset (concat (map F ds))"
proof (induction ds)
  case Nil
  then show ?case by simp
next
  case (Cons d ds)
  then have mem: "d \<in> set D" and sub: "set ds \<subseteq> set D" by simp_all
  from owner_of_entry [OF mem] obtain e where e: "owner D (dto_id d) = Some e" ..
  then have e': "e < length D" by (simp add: owner_Some)
  have "(\<Sum>j = 0..<length D. mset (if owner D (dto_id d) = Some j then F d else [])) =
        (\<Sum>j = 0..<length D. if e = j then mset (F d) else {#})"
    by (rule sum.cong) (auto simp: e)
  also have "\<dots> = mset (F d)" using e' by (simp add: sum.delta')
  finally have one: "(\<Sum>j = 0..<length D. mset (if owner D (dto_id d) = Some j then F d else [])) =
        mset (F d)" .
  have "(\<Sum>j = 0..<length D. mset (concat (map (\<lambda>d. if owner D (dto_id d) = Some j then F d else []) (d # ds)))) =
        (\<Sum>j = 0..<length D. mset (if owner D (dto_id d) = Some j then F d else [])) +
        (\<Sum>j = 0..<length D. mset (concat (map (\<lambda>d. if owner D (dto_id d) = Some j then F d else []) ds)))"
    by (simp add: sum.distrib)
  with one Cons.IH [OF sub] show ?case by simp
qed

lemma mset_concat_upt:
  "mset (concat (map f [0..<n])) = (\<Sum>j = 0..<n. mset (f j))"
  by (induction n) simp_all

lemma importJson_distinct:
  assumes "distinct (map dto_id D)"
  shows "fst (exportJson (snd (importJson (Some D) initEditor))) =
     Inr (map (\<lambda>d. d\<lparr>dto_c := filter (\<lambda>c. sid c \<in> set (map dto_id D)) (dto_c d)\<rparr>) D)"
proof -
  have "map (\<lambda>j. (D ! j)\<lparr>dto_c :=
              concat (map (\<lambda>d. if owner D (dto_id d) = Some j
                              then filter (\<lambda>c. owner D (sid c) \<noteq> None) (dto_c d) else []) D)\<rparr>)
            [0..<length D] =
        map (\<lambda>d. d\<lparr>dto_c := filter (\<lambda>c. sid c \<in> set (map dto_id D)) (dto_c d)\<rparr>) D"
    by (rule nth_equalityI)
      (simp_all add: concat_owner_distinct [OF assms] owner_None)
  with importJson_result [of D] show ?thesis by simp
qed

text \<open>
  C2, as the code has it. For a document whose ids are pairwise distinct and in which the
  \<open>sid\<close> of every connection is the id of an entry, importing it into a new editor raises
  nothing, adds one shape per entry, and the export that follows is the document itself:
  entries, positions, ids, and every connection with its \<open>l\<close>, \<open>sai\<close>, \<open>sid\<close> and \<open>eai\<close>.
\<close>

theorem import_export_roundtrip:
  assumes "distinct (map dto_id D)"
    and "\<forall>d\<in>set D. \<forall>c\<in>set (dto_c d). sid c \<in> set (map dto_id D)"
  shows "fst (importJson (Some D) initEditor) = Inr (Some [0..<length D])
    \<and> fst (exportJson (snd (importJson (Some D) initEditor))) = Inr D"
proof -
  have "map (\<lambda>d. d\<lparr>dto_c := filter (\<lambda>c. sid c \<in> set (map dto_id D)) (dto_c d)\<rparr>) D = map (\<lambda>d. d) D"
    using assms(2) by (intro map_cong refl) simp
  with importJson_distinct [OF assms(1)] importJson_result [of D] show ?thesis by simp
qed

text \<open>
  C6. Importing any document into a new editor raises nothing and adds one shape per entry:
  the export that follows has the entries of the document with their template, position and
  id, and its connections are those of the document whose \<open>sid\<close> is the id of an entry, each
  as often as in the document. When the ids are pairwise distinct, every entry keeps its own
  connections, in order, without the ones whose \<open>sid\<close> matches no entry.
\<close>

theorem importJson_skips_unresolved:
  "fst (importJson (Some D) initEditor) = Inr (Some [0..<length D])
   \<and> (\<exists>E. fst (exportJson (snd (importJson (Some D) initEditor))) = Inr E
        \<and> map (\<lambda>d. d\<lparr>dto_c := []\<rparr>) E = map (\<lambda>d. d\<lparr>dto_c := []\<rparr>) D
        \<and> mset (concat (map dto_c E)) =
            mset (filter (\<lambda>c. sid c \<in> set (map dto_id D)) (concat (map dto_c D))))
   \<and> (distinct (map dto_id D) \<longrightarrow>
        fst (exportJson (snd (importJson (Some D) initEditor))) =
          Inr (map (\<lambda>d. d\<lparr>dto_c := filter (\<lambda>c. sid c \<in> set (map dto_id D)) (dto_c d)\<rparr>) D))"
proof -
  define recs where "recs = (\<lambda>j. concat (map (\<lambda>d. if owner D (dto_id d) = Some j
      then filter (\<lambda>c. owner D (sid c) \<noteq> None) (dto_c d) else []) D))"
  define E where "E = map (\<lambda>j. (D ! j)\<lparr>dto_c := recs j\<rparr>) [0..<length D]"
  from importJson_result [of D]
  have imp: "fst (importJson (Some D) initEditor) = Inr (Some [0..<length D])"
    and ex: "fst (exportJson (snd (importJson (Some D) initEditor))) = Inr E"
    by (simp_all add: E_def recs_def)
  have strip: "map (\<lambda>d. d\<lparr>dto_c := []\<rparr>) E = map (\<lambda>d. d\<lparr>dto_c := []\<rparr>) D"
    by (rule nth_equalityI) (simp_all add: E_def)
  have "concat (map dto_c E) = concat (map recs [0..<length D])"
    by (simp add: E_def o_def)
  then have "mset (concat (map dto_c E)) = (\<Sum>j = 0..<length D. mset (recs j))"
    by (simp add: mset_concat_upt)
  also have "\<dots> = mset (concat (map (\<lambda>d. filter (\<lambda>c. owner D (sid c) \<noteq> None) (dto_c d)) D))"
    unfolding recs_def by (rule sum_owner_mset) simp
  also have "\<dots> = mset (filter (\<lambda>c. sid c \<in> set (map dto_id D)) (concat (map dto_c D)))"
    by (simp add: owner_None filter_concat o_def)
  finally have m: "mset (concat (map dto_c E)) =
      mset (filter (\<lambda>c. sid c \<in> set (map dto_id D)) (concat (map dto_c D)))" .
  from imp ex strip m importJson_distinct [of D] show ?thesis by blast
qed

text \<open>
  C2 as stated fails for a document with a connection whose \<open>sid\<close> matches no entry: the
  export after the import has the entry without the connection.
\<close>

theorem import_export_unresolved_differs:
  "fst (exportJson (snd (importJson
      (Some [\<lparr>dto_s = emptyEnd, dto_x = 0, dto_y = 0, dto_id = 1,
               dto_c = [\<lparr>conn_l = map Some [14, 7, 57, 7, 57, 7, 100, 7], sai = 1, sid = 2,
                         eai = 0\<rparr>]\<rparr>]) initEditor))) =
     Inr [\<lparr>dto_s = emptyEnd, dto_x = 0, dto_y = 0, dto_id = 1, dto_c = []\<rparr>]"
  by (simp add: handler_defs)

theorem import_export_roundtrip_witness:
  "distinct (map dto_id
      [\<lparr>dto_s = emptyEnd, dto_x = 0, dto_y = 0, dto_id = 1, dto_c = []\<rparr>,
       \<lparr>dto_s = emptyEnd, dto_x = 100, dto_y = 0, dto_id = 2,
         dto_c = [\<lparr>conn_l = map Some [14, 7, 57, 7, 57, 7, 100, 7], sai = 1, sid = 1,
                   eai = 0\<rparr>]\<rparr>])
   \<and> fst (exportJson (snd (importJson (Some
      [\<lparr>dto_s = emptyEnd, dto_x = 0, dto_y = 0, dto_id = 1, dto_c = []\<rparr>,
       \<lparr>dto_s = emptyEnd, dto_x = 100, dto_y = 0, dto_id = 2,
         dto_c = [\<lparr>conn_l = map Some [14, 7, 57, 7, 57, 7, 100, 7], sai = 1, sid = 1,
                   eai = 0\<rparr>]\<rparr>]) initEditor))) =
     Inr [\<lparr>dto_s = emptyEnd, dto_x = 0, dto_y = 0, dto_id = 1, dto_c = []\<rparr>,
       \<lparr>dto_s = emptyEnd, dto_x = 100, dto_y = 0, dto_id = 2,
         dto_c = [\<lparr>conn_l = map Some [14, 7, 57, 7, 57, 7, 100, 7], sai = 1, sid = 1,
                   eai = 0\<rparr>]\<rparr>]"
  using import_export_roundtrip [of
      "[\<lparr>dto_s = emptyEnd, dto_x = 0, dto_y = 0, dto_id = 1, dto_c = []\<rparr>,
       \<lparr>dto_s = emptyEnd, dto_x = 100, dto_y = 0, dto_id = 2,
         dto_c = [\<lparr>conn_l = map Some [14, 7, 57, 7, 57, 7, 100, 7], sai = 1, sid = 1,
                   eai = 0\<rparr>]\<rparr>]"]
  by simp

theorem importJson_skips_unresolved_witness:
  "distinct (map dto_id
      [\<lparr>dto_s = emptyEnd, dto_x = 0, dto_y = 0, dto_id = 1,
         dto_c = [\<lparr>conn_l = map Some [1, 2, 3, 4], sai = 0, sid = 9, eai = 1\<rparr>]\<rparr>,
       \<lparr>dto_s = emptyEnd, dto_x = 100, dto_y = 0, dto_id = 2,
         dto_c = [\<lparr>conn_l = map Some [14, 7, 57, 7, 57, 7, 100, 7], sai = 1, sid = 1,
                   eai = 0\<rparr>]\<rparr>])
   \<and> fst (exportJson (snd (importJson (Some
      [\<lparr>dto_s = emptyEnd, dto_x = 0, dto_y = 0, dto_id = 1,
         dto_c = [\<lparr>conn_l = map Some [1, 2, 3, 4], sai = 0, sid = 9, eai = 1\<rparr>]\<rparr>,
       \<lparr>dto_s = emptyEnd, dto_x = 100, dto_y = 0, dto_id = 2,
         dto_c = [\<lparr>conn_l = map Some [14, 7, 57, 7, 57, 7, 100, 7], sai = 1, sid = 1,
                   eai = 0\<rparr>]\<rparr>]) initEditor))) =
     Inr [\<lparr>dto_s = emptyEnd, dto_x = 0, dto_y = 0, dto_id = 1, dto_c = []\<rparr>,
       \<lparr>dto_s = emptyEnd, dto_x = 100, dto_y = 0, dto_id = 2,
         dto_c = [\<lparr>conn_l = map Some [14, 7, 57, 7, 57, 7, 100, 7], sai = 1, sid = 1,
                   eai = 0\<rparr>]\<rparr>]"
  using importJson_skips_unresolved [of
      "[\<lparr>dto_s = emptyEnd, dto_x = 0, dto_y = 0, dto_id = 1,
         dto_c = [\<lparr>conn_l = map Some [1, 2, 3, 4], sai = 0, sid = 9, eai = 1\<rparr>]\<rparr>,
       \<lparr>dto_s = emptyEnd, dto_x = 100, dto_y = 0, dto_id = 2,
         dto_c = [\<lparr>conn_l = map Some [14, 7, 57, 7, 57, 7, 100, 7], sai = 1, sid = 1,
                   eai = 0\<rparr>]\<rparr>]"]
  by simp

subsection \<open>The stub shape\<close>

lemma map_cacDto_update:
  assumes "cacDto y = cacDto (xs ! i)"
  shows "map cacDto (xs[i := y]) = map cacDto xs"
proof (rule nth_equalityI)
  fix k assume "k < length (map cacDto (xs[i := y]))"
  then show "map cacDto (xs[i := y]) ! k = map cacDto xs ! k"
    using assms by (cases "k = i") simp_all
qed simp

text \<open>
  A click on the empty stage at \<open>p\<close>, while a line is in progress whose start shape is in the
  layer, raises nothing and adds exactly one shape: the stub \<open>emptyEnd\<close> at \<open>p\<close>, with a
  random id and exactly one connection, the line recalculated to \<open>p\<close>, ending at anchor 0.
  The stored data of the other shapes does not change.
\<close>

theorem stageClick_adds_stub:
  assumes cur: "findCurrentLine st = Some lref"
    and start: "find (\<lambda>s. dto_id (cacDto (shapes st ! s)) = cacStartPidShapeId (lines st ! lref))
                  (findPidShapes st) = Some sh"
  shows "fst (stageClick (Some p) rnd st) = None
    \<and> length (shapes (snd (stageClick (Some p) rnd st))) = Suc (length (shapes st))
    \<and> map cacDto (take (length (shapes st)) (shapes (snd (stageClick (Some p) rnd st)))) =
        map cacDto (shapes st)
    \<and> pidShape (shapes (snd (stageClick (Some p) rnd st)) ! length (shapes st)) = emptyEnd
    \<and> groupPos (shapes (snd (stageClick (Some p) rnd st)) ! length (shapes st)) = p
    \<and> inLayer (shapes (snd (stageClick (Some p) rnd st)) ! length (shapes st))
    \<and> cacDto (shapes (snd (stageClick (Some p) rnd st)) ! length (shapes st)) =
        \<lparr>dto_s = emptyEnd, dto_x = fst p, dto_y = snd p, dto_id = \<lfloor>rnd * 1000000\<rfloor>,
         dto_c = [\<lparr>conn_l = fst (recalculateTheLine (lines st ! lref) p),
                   sai = cacStartAnchorIndex (lines st ! lref),
                   sid = cacStartPidShapeId (lines st ! lref), eai = 0\<rparr>]\<rparr>"
proof -
  from cur have lref: "lref < length (lines st)" by (simp add: findCurrentLine_Some)
  have fps: "findPidShapes (st\<lparr>anchorShapes := a, lines := b\<rparr>) = findPidShapes st" for a b
    by (simp add: findPidShapes_def)
  from start have sh: "sh \<in> set (findPidShapes st)"
    by (auto simp: find_Some_iff)
  then have shl: "sh < length (shapes st)" by (simp add: findPidShapes_def)
  show ?thesis
    using cur start lref shl
    by (simp add: stageClick_def endConnectingLine_def Let_def cleanAnchorShapes_def
        updLine_def fps findCurrentLine_def findPidShapes_def recalculateTheLine_def
        addConnectorToPath_def createEmtpyShape_def addShape_def fire_def nth_append
        map_cacDto_update)
qed

theorem stageClick_adds_stub_witness:
  "findCurrentLine (run (\<lambda>s. (0, 0))
      [AddShape emptyEnd 0 0 (id_given 1), Click 0, AnchorMouseDown 1]) = Some 0
   \<and> fst (stageClick (Some (50, 60)) (1 / 2) (run (\<lambda>s. (0, 0))
      [AddShape emptyEnd 0 0 (id_given 1), Click 0, AnchorMouseDown 1])) = None
   \<and> length (shapes (snd (stageClick (Some (50, 60)) (1 / 2) (run (\<lambda>s. (0, 0))
      [AddShape emptyEnd 0 0 (id_given 1), Click 0, AnchorMouseDown 1])))) = 2
   \<and> cacDto (shapes (snd (stageClick (Some (50, 60)) (1 / 2) (run (\<lambda>s. (0, 0))
      [AddShape emptyEnd 0 0 (id_given 1), Click 0, AnchorMouseDown 1]))) ! 1) =
       \<lparr>dto_s = emptyEnd, dto_x = 50, dto_y = 60, dto_id = 500000,
        dto_c = [\<lparr>conn_l = map Some [14, 7, 32, 7, 32, 60, 50, 60], sai = 1, sid = 1,
                  eai = 0\<rparr>]\<rparr>"
proof -
  let ?st = "run (\<lambda>s. (0, 0)) [AddShape emptyEnd 0 0 (id_given 1), Click 0, AnchorMouseDown 1]"
  have cur: "findCurrentLine ?st = Some 0" by (simp add: handler_defs)
  have start: "find (\<lambda>s. dto_id (cacDto (shapes ?st ! s)) = cacStartPidShapeId (lines ?st ! 0))
                 (findPidShapes ?st) = Some 0"
    by (simp add: handler_defs)
  have len: "length (shapes ?st) = 1" by (simp add: handler_defs)
  have lin: "lines ?st ! 0 = \<lparr>points = [Some 14, Some 7], lname = cacCurrentLine,
      cacStartAnchorIndex = 1, cacStartPidShapeId = 1, lineInLayer = True\<rparr>"
    by (simp add: handler_defs)
  note stub = stageClick_adds_stub [OF cur start, of "(50, 60)" "1 / 2", unfolded len lin]
  from stub cur show ?thesis
    by (simp add: recalculateTheLine_def array_at_def middle_def Let_def)
qed

end
